theory Spec2Isabelle
  imports Complex_Main "HOL-Library.Sublist"
begin


text \<open>
  The program is a Python test bench for a two-channel tunable laser.  A Python float is
  modelled by the real number it denotes, with every float operation rounded as binary64
  arithmetic rounds it (see \<open>round_double\<close> below); Python's unbounded integers are
  \<^typ>\<open>int\<close>, and \<open>None\<close> is \<^const>\<open>None\<close>.
\<close>

section \<open>Float arithmetic\<close>

text \<open>The nearest integer, a tie going to the even one.\<close>

definition py_round_half_even :: "real \<Rightarrow> int" where
  "py_round_half_even y =
     (if y - of_int \<lfloor>y\<rfloor> < 1/2 then \<lfloor>y\<rfloor>
      else if y - of_int \<lfloor>y\<rfloor> > 1/2 then \<lfloor>y\<rfloor> + 1
      else if even \<lfloor>y\<rfloor> then \<lfloor>y\<rfloor> else \<lfloor>y\<rfloor> + 1)"

text \<open>
  The rounding of a real number to the nearest binary64 number, a tie going to the even
  significand: a number \<open>x\<close> with \<open>2^e \<le> |x| < 2^(e+1)\<close> is rounded to a multiple of
  \<open>2^(e-52)\<close>, and a number below \<open>2^-1022\<close> to a multiple of \<open>2^-1074\<close>.  The
  infinities and NaN are not modelled: no quantity of the program comes near \<open>2^1024\<close>.
\<close>

definition ulp_exponent :: "real \<Rightarrow> int" where
  "ulp_exponent x = max \<lfloor>log 2 \<bar>x\<bar>\<rfloor> (- 1022) - 52"

definition round_double :: "real \<Rightarrow> real" where
  "round_double x =
     (if x = 0 then 0
      else 2 powr of_int (ulp_exponent x)
           * of_int (py_round_half_even (x / 2 powr of_int (ulp_exponent x))))"

text \<open>
  Float \<open>+\<close>, \<open>-\<close>, \<open>*\<close> and \<open>/\<close>: the exact result, rounded.  Comparisons, \<open>min\<close>,
  \<open>max\<close> and \<open>int()\<close> are exact, and so is the conversion of an integer below \<open>2^53\<close>.
\<close>

definition fadd :: "real \<Rightarrow> real \<Rightarrow> real" where
  "fadd a b = round_double (a + b)"

definition fsub :: "real \<Rightarrow> real \<Rightarrow> real" where
  "fsub a b = round_double (a - b)"

definition fmul :: "real \<Rightarrow> real \<Rightarrow> real" where
  "fmul a b = round_double (a * b)"

definition fdiv :: "real \<Rightarrow> real \<Rightarrow> real" where
  "fdiv a b = round_double (a / b)"

text \<open>
  An integer operand of a float operation is converted to the nearest float first; the
  conversion is exact below \<open>2^53\<close>.
\<close>

definition py_float :: "int \<Rightarrow> real" where
  "py_float n = round_double (of_int n)"

text \<open>\<open>int(x)\<close> on a float truncates towards zero.\<close>

definition py_int :: "real \<Rightarrow> int" where
  "py_int x = (if x \<ge> 0 then \<lfloor>x\<rfloor> else \<lceil>x\<rceil>)"

text \<open>
  \<open>round(x, 1)\<close>: the exact value of \<open>x\<close> is rounded to one decimal place, a tie going
  to the even digit, and the float nearest to that decimal number is returned.
\<close>

definition py_round1 :: "real \<Rightarrow> real" where
  "py_round1 x = round_double (of_int (py_round_half_even (x * 10)) / 10)"

section \<open>Data model of the worker\<close>

text \<open>The per-channel parameter dictionary (\<open>DEFAULT_PARAMS\<close>, \<open>merge_channel\<close>).\<close>

record params =
  test_min :: "real option"
  test_max :: "real option"
  wait_time :: real
  cycles :: "int option"
  measure_power_curve :: bool

text \<open>One entry of \<open>TestWorker.test_results\<close>.\<close>

record attempt_outcome =
  timestamp :: real
  wavelength :: real
  wl_success :: bool
  wl_duration :: real

text \<open>One entry of \<open>TestWorker.power_curve_data\<close>.\<close>

record power_sample =
  ps_wavelength :: real
  ps_power :: real

text \<open>
  The fields of a \<open>TestWorker\<close> object.  The attribute \<open>running\<close> is left out of the
  record: it is cleared by the GUI thread (\<open>on_stop\<close>, \<open>on_reset\<close>) while the worker
  thread runs, so every read of it is an input of the worker (see \<open>running_read\<close> below).
\<close>

record worker =
  channel :: nat
  w_wait_time :: real
  range_min :: "real option"
  range_max :: "real option"
  w_cycles :: "int option"
  w_measure_power_curve :: bool
  test_results :: "attempt_outcome list"
  power_curve_data :: "power_sample list"
  device_min :: "real option"
  device_max :: "real option"

section \<open>Range resolution: \<open>TestWorker.__init__\<close>\<close>

text \<open>
  \<^verbatim>\<open>
  if self.device_min is None or self.device_max is None:
      self.range_min = None
      self.range_max = None
  else:
      if self.range_min is None or self.range_max is None:
          self.range_min, self.range_max = self.device_min, self.device_max
      self.range_min = max(self.range_min, self.device_min)
      self.range_max = min(self.range_max, self.device_max)
      if self.range_min >= self.range_max:
          self.range_min, self.range_max = self.device_min, self.device_max
  \<close>
\<close>

definition resolve_range ::
  "real option \<Rightarrow> real option \<Rightarrow> real option \<Rightarrow> real option \<Rightarrow> real option \<times> real option" where
  "resolve_range rmin rmax dmin dmax =
     (case (dmin, dmax) of
        (Some dlo, Some dhi) \<Rightarrow>
          (case (case (rmin, rmax) of (Some a, Some b) \<Rightarrow> (a, b) | _ \<Rightarrow> (dlo, dhi)) of
             (a, b) \<Rightarrow>
               if max a dlo \<ge> min b dhi then (Some dlo, Some dhi)
               else (Some (max a dlo), Some (min b dhi)))
      | _ \<Rightarrow> (None, None))"

text \<open>\<open>self.cycles = None if (params["cycles"] is None or params["cycles"] <= 0) else params["cycles"]\<close>\<close>

definition init_cycles :: "int option \<Rightarrow> int option" where
  "init_cycles c = (case c of None \<Rightarrow> None | Some n \<Rightarrow> if n \<le> 0 then None else Some n)"

definition TestWorker_init :: "nat \<Rightarrow> params \<Rightarrow> real option \<times> real option \<Rightarrow> worker" where
  "TestWorker_init ch p device_range =
     (case resolve_range (test_min p) (test_max p) (fst device_range) (snd device_range) of
        (lo, hi) \<Rightarrow>
          \<lparr> channel = ch,
            w_wait_time = wait_time p,
            range_min = lo,
            range_max = hi,
            w_cycles = init_cycles (cycles p),
            w_measure_power_curve = measure_power_curve p,
            test_results = [],
            power_curve_data = [],
            device_min = fst device_range,
            device_max = snd device_range \<rparr>)"

text \<open>
  The resolution as the specification words it, for comparison with \<open>resolve_range\<close>:
  each unset requested bound defaults to the device bound on its own, the requested minimum
  is clamped up and the requested maximum is clamped down, and a degenerate result falls
  back to the device range.
\<close>

definition resolve_per_bound :: "real option \<Rightarrow> real option \<Rightarrow> real \<Rightarrow> real \<Rightarrow> real \<times> real" where
  "resolve_per_bound rmin rmax dlo dhi =
     (case (max (case rmin of None \<Rightarrow> dlo | Some a \<Rightarrow> a) dlo,
            min (case rmax of None \<Rightarrow> dhi | Some b \<Rightarrow> b) dhi) of
        (lo, hi) \<Rightarrow> if lo \<ge> hi then (dlo, dhi) else (lo, hi))"

section \<open>The device, the clock and the stop flag as inputs\<close>

text \<open>
  A JSON reply of \<open>GET /Ch{n}/Status\<close>, reduced to the keys the program reads.
  A key that is absent from the reply is \<^const>\<open>None\<close>; \<open>safe_get_json\<close> returning
  \<open>None\<close> (timeout, HTTP error, malformed body) is a \<^const>\<open>None\<close> reply.
\<close>

record chan_status =
  status_ok :: bool
  setting_active :: "bool option"
  setting_state :: "string option"

text \<open>A JSON reply of \<open>GET /Ch{n}/Power\<close>.\<close>

record power_reply =
  power_ok :: bool
  power_value :: "real option"

text \<open>
  Everything the worker thread reads from outside, indexed by the number of earlier reads
  of the same kind: the replies to \<open>check_connection\<close>, to the \<open>PUT\<close> of a wavelength
  (only whether one arrived), to the status polls of an attempt and to the power query,
  the values of \<open>random.random()\<close>, of \<open>self.running\<close> and of the wall clock
  (\<open>time.time()\<close>, \<open>datetime.now()\<close>).
\<close>

record env =
  conn_resp :: "nat \<Rightarrow> chan_status option"
  put_resp :: "nat \<Rightarrow> bool"
  poll_resp :: "nat \<Rightarrow> chan_status option"
  power_resp :: "nat \<Rightarrow> power_reply option"
  random_unit :: "nat \<Rightarrow> real"
  running_read :: "nat \<Rightarrow> bool"
  clock :: "nat \<Rightarrow> real"

datatype command = PutWavelength nat real | GetStatus nat | GetPower nat

text \<open>The Qt signals of \<open>TestWorker\<close>, and \<open>time.sleep\<close>, in the order they happen.\<close>

datatype event =
    UpdateStatus bool real real
  | Finished
  | ProgressUpdate int int
  | PowerCurveFinished "power_sample list"
  | ConnectionLost
  | CommandSent command
  | CurrentWavelength real
  | Sleep real

text \<open>The lines of the failure log file.\<close>

datatype log_line = LogTitle nat | LogStarted real | LogRule | LogFailed real real real

datatype py_error = TypeError | IndexError

text \<open>
  The state outside the worker object: how many inputs of each kind have been consumed,
  the events so far and the contents of the failure log.
\<close>

record world =
  n_conn :: nat
  n_put :: nat
  n_poll :: nat
  n_power :: nat
  n_rand :: nat
  n_run :: nat
  n_clock :: nat
  events :: "event list"
  fail_log :: "log_line list"

definition emit :: "event \<Rightarrow> world \<Rightarrow> world" where
  "emit e w = w\<lparr>events := events w @ [e]\<rparr>"

definition sleep :: "real \<Rightarrow> world \<Rightarrow> world" where
  "sleep d w = emit (Sleep d) w"

definition read_running :: "env \<Rightarrow> world \<Rightarrow> bool \<times> world" where
  "read_running env w = (running_read env (n_run w), w\<lparr>n_run := Suc (n_run w)\<rparr>)"

definition time_time :: "env \<Rightarrow> world \<Rightarrow> real \<times> world" where
  "time_time env w = (clock env (n_clock w), w\<lparr>n_clock := Suc (n_clock w)\<rparr>)"

text \<open>\<open>return response is not None and response.get("OK", False)\<close>\<close>

definition check_connection :: "env \<Rightarrow> world \<Rightarrow> bool \<times> world" where
  "check_connection env w =
     ((case conn_resp env (n_conn w) of None \<Rightarrow> False | Some r \<Rightarrow> status_ok r),
      w\<lparr>n_conn := Suc (n_conn w)\<rparr>)"

definition get_status :: "env \<Rightarrow> world \<Rightarrow> chan_status option \<times> world" where
  "get_status env w = (poll_resp env (n_poll w), w\<lparr>n_poll := Suc (n_poll w)\<rparr>)"

definition put_wavelength :: "env \<Rightarrow> world \<Rightarrow> bool \<times> world" where
  "put_wavelength env w = (put_resp env (n_put w), w\<lparr>n_put := Suc (n_put w)\<rparr>)"

definition get_power :: "env \<Rightarrow> world \<Rightarrow> power_reply option \<times> world" where
  "get_power env w = (power_resp env (n_power w), w\<lparr>n_power := Suc (n_power w)\<rparr>)"

section \<open>One attempt: \<open>TestWorker._perform_wavelength_attempt\<close>\<close>

text \<open>
  The activation loop, \<open>for _ in range(10)\<close>; the third argument is the number of
  iterations left.  The result is \<open>active_started\<close>.
  \<^verbatim>\<open>
  for _ in range(10):
      if not self.running: break
      self.command_sent.emit(f"GET /Ch{self.channel}/Status")
      st = safe_get_json(f"{API_BASE}/Ch{self.channel}/Status")
      if st is None:
          self.connection_lost.emit()
          time.sleep(0.5); continue
      if st.get("IsWavelengthSettingActive", False):
          active_started = True
          break
      time.sleep(0.5)
  \<close>
\<close>

fun activation_loop :: "env \<Rightarrow> nat \<Rightarrow> nat \<Rightarrow> world \<Rightarrow> bool \<times> world" where
  "activation_loop env ch 0 w = (False, w)"
| "activation_loop env ch (Suc n) w =
     (case read_running env w of
        (r, w1) \<Rightarrow>
          if \<not> r then (False, w1)
          else (case get_status env (emit (CommandSent (GetStatus ch)) w1) of
                  (None, w2) \<Rightarrow> activation_loop env ch n (sleep (1/2) (emit ConnectionLost w2))
                | (Some st, w2) \<Rightarrow>
                    if setting_active st = Some True then (True, w2)
                    else activation_loop env ch n (sleep (1/2) w2)))"

text \<open>
  The completion loop, \<open>for _ in range(120)\<close>.  The result is \<open>success\<close>.
  \<^verbatim>\<open>
  for _ in range(120):
      if not self.running: break
      self.command_sent.emit(f"GET /Ch{self.channel}/Status")
      st = safe_get_json(f"{API_BASE}/Ch{self.channel}/Status")
      if st is None:
          self.connection_lost.emit()
          time.sleep(1); continue
      if not st.get("IsWavelengthSettingActive", True):
          if st.get("WavelengthSettingState", "") == "Success":
              success = True
          break
      time.sleep(1)
  \<close>
\<close>

fun completion_loop :: "env \<Rightarrow> nat \<Rightarrow> nat \<Rightarrow> world \<Rightarrow> bool \<times> world" where
  "completion_loop env ch 0 w = (False, w)"
| "completion_loop env ch (Suc n) w =
     (case read_running env w of
        (r, w1) \<Rightarrow>
          if \<not> r then (False, w1)
          else (case get_status env (emit (CommandSent (GetStatus ch)) w1) of
                  (None, w2) \<Rightarrow> completion_loop env ch n (sleep 1 (emit ConnectionLost w2))
                | (Some st, w2) \<Rightarrow>
                    if setting_active st = Some False
                    then (setting_state st = Some ''Success'', w2)
                    else completion_loop env ch n (sleep 1 w2)))"

definition perform_wavelength_attempt ::
  "env \<Rightarrow> nat \<Rightarrow> real \<Rightarrow> world \<Rightarrow> (bool \<times> real) \<times> world" where
  "perform_wavelength_attempt env ch wl w =
     (case time_time env w of
        (start_time, w1) \<Rightarrow>
          (case put_wavelength env (emit (CommandSent (PutWavelength ch wl)) w1) of
             (put_ok, w2) \<Rightarrow>
               if \<not> put_ok
               then (case time_time env (emit ConnectionLost w2) of
                       (t, w3) \<Rightarrow> ((False, fsub t start_time), w3))
               else (case activation_loop env ch 10 w2 of
                       (active_started, w3) \<Rightarrow>
                         if \<not> active_started
                         then (case time_time env w3 of
                                 (t, w4) \<Rightarrow> ((False, fsub t start_time), w4))
                         else (case completion_loop env ch 120 w3 of
                                 (success, w4) \<Rightarrow>
                                   (case time_time env w4 of
                                      (t, w5) \<Rightarrow> ((success, fsub t start_time), w5))))))"

section \<open>The run loop: \<open>TestWorker.run\<close>\<close>

text \<open>\<open>random.uniform(a, b)\<close> is \<open>a + (b - a) * self.random()\<close>.\<close>

definition uniform :: "env \<Rightarrow> real \<Rightarrow> real \<Rightarrow> world \<Rightarrow> real \<times> world" where
  "uniform env a b w =
     (fadd a (fmul (fsub b a) (random_unit env (n_rand w))), w\<lparr>n_rand := Suc (n_rand w)\<rparr>)"

text \<open>
  \<open>configure_logs\<close> starts a new failure log; \<open>datetime.now()\<close> is read once for the
  file name and once for the header.
\<close>

definition configure_logs :: "env \<Rightarrow> nat \<Rightarrow> world \<Rightarrow> world" where
  "configure_logs env ch w =
     (case time_time env w of
        (ts, w1) \<Rightarrow>
          (case time_time env w1 of
             (t, w2) \<Rightarrow> w2\<lparr>fail_log := [LogTitle ch, LogStarted t, LogRule]\<rparr>))"

text \<open>
  One evaluation of the loop condition of \<open>run\<close> followed, when it holds, by one pass
  through the loop body.  The boolean of the result says whether the loop goes on; the
  integer is the local variable \<open>attempts\<close>.  A bound that is \<open>None\<close> where the body needs
  a number raises \<open>TypeError\<close> in Python.
  \<^verbatim>\<open>
  while self.running and (self.cycles is None or attempts < self.cycles):
      if not check_connection(self.channel):
          self.connection_lost.emit()
          time.sleep(2)
          continue
      wl = round(random.uniform(self.range_min, self.range_max), 1)
      wl = min(max(wl, self.device_min), self.device_max)
      self.current_wavelength.emit(wl)
      success, duration = self._perform_wavelength_attempt(wl)
      attempts += 1
      self.test_results.append({...})
      self.update_status.emit(success, duration, wl)
      self.progress_update.emit(attempts, self.cycles or 0)
      if not success:
          with open(self.fail_log_file, "a") as f:
              f.write(...)
      time.sleep(self.wait_time + 3)
  \<close>
\<close>

definition clamp_to_device :: "real \<Rightarrow> real \<Rightarrow> real \<Rightarrow> real" where
  "clamp_to_device wl dlo dhi = min (max wl dlo) dhi"

definition log_failure :: "env \<Rightarrow> real \<Rightarrow> real \<Rightarrow> world \<Rightarrow> world" where
  "log_failure env wl duration w =
     (case time_time env w of
        (t, w1) \<Rightarrow> w1\<lparr>fail_log := fail_log w1 @ [LogFailed t wl duration]\<rparr>)"

text \<open>The loop body from \<open>attempts += 1\<close> to the closing \<open>time.sleep\<close>.\<close>

definition record_attempt ::
  "env \<Rightarrow> worker \<Rightarrow> int \<Rightarrow> real \<Rightarrow> bool \<Rightarrow> real \<Rightarrow> world \<Rightarrow> worker \<times> int \<times> world" where
  "record_attempt env wk attempts wl success duration w =
     (case time_time env w of
        (now, w1) \<Rightarrow>
          (wk\<lparr>test_results := test_results wk @
               [\<lparr>timestamp = now, wavelength = wl, wl_success = success, wl_duration = duration\<rparr>]\<rparr>,
           attempts + 1,
           sleep (fadd (w_wait_time wk) 3)
             ((if \<not> success then log_failure env wl duration else id)
                (emit (ProgressUpdate (attempts + 1) (case w_cycles wk of None \<Rightarrow> 0 | Some c \<Rightarrow> c))
                   (emit (UpdateStatus success duration wl) w1)))))"

definition run_cycle ::
  "env \<Rightarrow> worker \<Rightarrow> int \<Rightarrow> world \<Rightarrow> py_error + (bool \<times> worker \<times> int \<times> world)" where
  "run_cycle env wk attempts w =
     (case read_running env w of
        (r, w1) \<Rightarrow>
          if \<not> (r \<and> (case w_cycles wk of None \<Rightarrow> True | Some c \<Rightarrow> attempts < c))
          then Inr (False, wk, attempts, w1)
          else (case check_connection env w1 of
             (ok, w2) \<Rightarrow>
               if \<not> ok then Inr (True, wk, attempts, sleep 2 (emit ConnectionLost w2))
               else (case (range_min wk, range_max wk) of
                  (Some lo, Some hi) \<Rightarrow>
                    (case uniform env lo hi w2 of
                       (u, w3) \<Rightarrow>
                         (case (device_min wk, device_max wk) of
                            (Some dlo, Some dhi) \<Rightarrow>
                              (let wl = clamp_to_device (py_round1 u) dlo dhi in
                               case perform_wavelength_attempt env (channel wk) wl
                                      (emit (CurrentWavelength wl) w3) of
                                 ((success, duration), w4) \<Rightarrow>
                                   Inr (True, record_attempt env wk attempts wl success duration w4))
                          | _ \<Rightarrow> Inl TypeError))
                | _ \<Rightarrow> Inl TypeError)))"

text \<open>
  The \<open>while\<close> loop may run for ever (an unbounded cycle count, a device that stays
  unreachable), so it takes fuel: \<^const>\<open>None\<close> means that the loop is still running
  after that many passes.
\<close>

fun run_loop ::
  "env \<Rightarrow> nat \<Rightarrow> worker \<Rightarrow> int \<Rightarrow> world \<Rightarrow> (py_error + (worker \<times> int \<times> world)) option" where
  "run_loop env 0 wk attempts w = None"
| "run_loop env (Suc k) wk attempts w =
     (case run_cycle env wk attempts w of
        Inl e \<Rightarrow> Some (Inl e)
      | Inr (go, wk', attempts', w') \<Rightarrow>
          if go then run_loop env k wk' attempts' w' else Some (Inr (wk', attempts', w')))"

text \<open>
  The state of the same loop after at most \<open>k\<close> passes, whether or not it has been left:
  the boolean of the result says that the loop is still running.
\<close>

fun run_cycles ::
  "env \<Rightarrow> nat \<Rightarrow> worker \<Rightarrow> int \<Rightarrow> world \<Rightarrow> py_error + (bool \<times> worker \<times> int \<times> world)" where
  "run_cycles env 0 wk attempts w = Inr (True, wk, attempts, w)"
| "run_cycles env (Suc k) wk attempts w =
     (case run_cycle env wk attempts w of
        Inl e \<Rightarrow> Inl e
      | Inr (go, wk', attempts', w') \<Rightarrow>
          if go then run_cycles env k wk' attempts' w' else Inr (False, wk', attempts', w'))"

section \<open>The power curve: \<open>TestWorker._measure_power_curve\<close>\<close>

text \<open>\<open>list(range(a, b, 10))\<close>\<close>

function range_step10 :: "int \<Rightarrow> int \<Rightarrow> int list" where
  "range_step10 a b = (if a < b then a # range_step10 (a + 10) b else [])"
  by pat_completeness auto
termination
  by (relation "measure (\<lambda>(a, b). nat (b - a))") auto

declare range_step10.simps [simp del]

text \<open>
  The sample points.  \<open>wls[-1]\<close> raises \<open>IndexError\<close> on an empty list.
  \<^verbatim>\<open>
  span = self.range_max - self.range_min
  if span < 10:
      wls = [int((self.range_min + self.range_max) / 2)]
  else:
      wls = list(range(int(self.range_min), int(self.range_max) + 1, 10))
      if wls[-1] < int(self.range_max):
          wls.append(int(self.range_max))
  \<close>
\<close>

definition power_curve_wls :: "real \<Rightarrow> real \<Rightarrow> py_error + int list" where
  "power_curve_wls lo hi =
     (if fsub hi lo < 10 then Inr [py_int (fdiv (fadd lo hi) 2)]
      else (case range_step10 (py_int lo) (py_int hi + 1) of
              [] \<Rightarrow> Inl IndexError
            | wls \<Rightarrow> if last wls < py_int hi then Inr (wls @ [py_int hi]) else Inr wls))"

text \<open>
  The loop over the sample points; the fourth argument is \<open>self.power_curve_data\<close>.
  \<^verbatim>\<open>
  for wl in wls:
      if not self.running: break
      if not check_connection(self.channel):
          self.connection_lost.emit()
          time.sleep(2)
          if not check_connection(self.channel): break
      wl = min(max(wl, self.device_min), self.device_max)
      success, _ = self._perform_wavelength_attempt(wl)
      if success:
          time.sleep(3)
          self.command_sent.emit(f"GET /Ch{self.channel}/Power")
          p = safe_get_json(f"{API_BASE}/Ch{self.channel}/Power")
          if p and p.get("OK"):
              self.power_curve_data.append({"wavelength": wl, "power": p.get("Power", 0.0)})
  \<close>
\<close>

definition recheck_connection :: "env \<Rightarrow> world \<Rightarrow> bool \<times> world" where
  "recheck_connection env w =
     (case check_connection env w of
        (ok, w1) \<Rightarrow>
          if \<not> ok then check_connection env (sleep 2 (emit ConnectionLost w1)) else (True, w1))"

definition record_power :: "env \<Rightarrow> nat \<Rightarrow> real \<Rightarrow> power_sample list \<Rightarrow> world \<Rightarrow> power_sample list \<times> world" where
  "record_power env ch wl data w =
     (case get_power env (emit (CommandSent (GetPower ch)) (sleep 3 w)) of
        (None, w1) \<Rightarrow> (data, w1)
      | (Some p, w1) \<Rightarrow>
          if power_ok p
          then (data @ [\<lparr>ps_wavelength = wl,
                         ps_power = (case power_value p of None \<Rightarrow> 0 | Some v \<Rightarrow> v)\<rparr>], w1)
          else (data, w1))"

fun power_curve_loop ::
  "env \<Rightarrow> worker \<Rightarrow> int list \<Rightarrow> power_sample list \<Rightarrow> world \<Rightarrow> py_error + (power_sample list \<times> world)" where
  "power_curve_loop env wk [] data w = Inr (data, w)"
| "power_curve_loop env wk (x # xs) data w =
     (case read_running env w of
        (r, w1) \<Rightarrow>
          if \<not> r then Inr (data, w1)
          else (case recheck_connection env w1 of
             (reachable, w2) \<Rightarrow>
               if \<not> reachable then Inr (data, w2)
               else (case (device_min wk, device_max wk) of
                  (Some dlo, Some dhi) \<Rightarrow>
                    (case perform_wavelength_attempt env (channel wk)
                            (clamp_to_device (of_int x) dlo dhi) w2 of
                       ((success, duration), w3) \<Rightarrow>
                         if success
                         then (case record_power env (channel wk)
                                      (clamp_to_device (of_int x) dlo dhi) data w3 of
                                 (data', w4) \<Rightarrow> power_curve_loop env wk xs data' w4)
                         else power_curve_loop env wk xs data w3)
                | _ \<Rightarrow> Inl TypeError)))"

definition measure_power_curve_phase :: "env \<Rightarrow> worker \<Rightarrow> world \<Rightarrow> py_error + (worker \<times> world)" where
  "measure_power_curve_phase env wk w =
     (case (range_min wk, range_max wk) of
        (Some lo, Some hi) \<Rightarrow>
          (case power_curve_wls lo hi of
             Inl e \<Rightarrow> Inl e
           | Inr wls \<Rightarrow>
               (case power_curve_loop env wk wls [] w of
                  Inl e \<Rightarrow> Inl e
                | Inr (data, w1) \<Rightarrow>
                    Inr (wk\<lparr>power_curve_data := data\<rparr>, emit (PowerCurveFinished data) w1)))
      | _ \<Rightarrow> Inr (wk, emit (PowerCurveFinished []) w))"

text \<open>
  \<open>run\<close> as a whole.  \<^const>\<open>None\<close>: the loop is still running when the fuel is used up.
  \<^verbatim>\<open>
  self.configure_logs()
  self.running = True
  attempts = 0
  self.test_results = []
  if self.range_min is None or self.range_max is None:
      self.finished.emit()
      return
  while ...
  if self.measure_power_curve and self.running and self.range_min is not None:
      self._measure_power_curve()
  self.finished.emit()
  \<close>
\<close>

definition run :: "env \<Rightarrow> nat \<Rightarrow> worker \<Rightarrow> world \<Rightarrow> (py_error + (worker \<times> world)) option" where
  "run env fuel wk w =
     (if range_min wk = None \<or> range_max wk = None
      then Some (Inr (wk\<lparr>test_results := []\<rparr>, emit Finished (configure_logs env (channel wk) w)))
      else (case run_loop env fuel (wk\<lparr>test_results := []\<rparr>) 0 (configure_logs env (channel wk) w) of
              None \<Rightarrow> None
            | Some (Inl e) \<Rightarrow> Some (Inl e)
            | Some (Inr (wk1, attempts, w1)) \<Rightarrow>
                (case (if w_measure_power_curve wk1 then read_running env w1 else (False, w1)) of
                   (go, w2) \<Rightarrow>
                     if go \<and> range_min wk1 \<noteq> None
                     then (case measure_power_curve_phase env wk1 w2 of
                             Inl e \<Rightarrow> Some (Inl e)
                           | Inr (wk2, w3) \<Rightarrow> Some (Inr (wk2, emit Finished w3)))
                     else Some (Inr (wk1, emit Finished w2)))))"

section \<open>Statistics and the remaining-time estimate: \<open>ChannelPanel\<close>\<close>

text \<open>
  The text of \<open>latest_eta\<close>: \<open>"\<infinity>"\<close>, \<open>"0s"\<close>, \<open>"-"\<close>, \<open>"MM:SS"\<close> or \<open>"HH:MM:SS"\<close>.
\<close>

datatype eta_label = EtaInfinite | EtaZero | EtaDash | EtaMS int int | EtaHMS int int int

text \<open>The fields of a \<open>ChannelPanel\<close> that the statistics read and write.\<close>

record panel =
  success_count :: int
  fail_count :: int
  total_time :: real
  durations :: "real list"
  wavelengths :: "real list"
  success_wavelengths :: "real list"
  failed_wavelengths :: "real list"
  total_cycles :: "int option"
  current_wait_time :: real
  latest_eta :: eta_label
  elapsed_seconds :: int
  aborted :: bool

text \<open>C's \<open>fmod\<close>: the remainder of the truncated quotient, which is exact.\<close>

definition c_fmod :: "real \<Rightarrow> real \<Rightarrow> real" where
  "c_fmod x y = x - y * of_int (py_int (x / y))"

text \<open>
  Float \<open>x // y\<close> and \<open>x % y\<close> for a divisor other than zero, as the interpreter
  computes them (the pair is \<open>(x // y, x % y)\<close>):
  \<^verbatim>\<open>
  mod = fmod(vx, wx);
  div = (vx - mod) / wx;
  if (mod) { if ((wx < 0) != (mod < 0)) { mod += wx; div -= 1.0; } }
  else mod = copysign(0.0, wx);
  if (div) { floordiv = floor(div); if (div - floordiv > 0.5) floordiv += 1.0; }
  else floordiv = copysign(0.0, vx / wx);
  \<close>
\<close>

definition float_divmod :: "real \<Rightarrow> real \<Rightarrow> real \<times> real" where
  "float_divmod vx wx =
     (case (c_fmod vx wx, fdiv (fsub vx (c_fmod vx wx)) wx) of
        (mod0, div0) \<Rightarrow>
          (case (if mod0 \<noteq> 0 \<and> (wx < 0) \<noteq> (mod0 < 0)
                 then (fadd mod0 wx, fsub div0 1) else (mod0, div0)) of
             (mod1, div1) \<Rightarrow>
               ((if div1 \<noteq> 0
                 then (if fsub div1 (of_int \<lfloor>div1\<rfloor>) > 1/2
                       then fadd (of_int \<lfloor>div1\<rfloor>) 1 else of_int \<lfloor>div1\<rfloor>)
                 else 0),
                mod1)))"

definition py_floordiv :: "real \<Rightarrow> real \<Rightarrow> real" where
  "py_floordiv x y = fst (float_divmod x y)"

definition py_fmod :: "real \<Rightarrow> real \<Rightarrow> real" where
  "py_fmod x y = snd (float_divmod x y)"

text \<open>
  \<^verbatim>\<open>
  if rem<3600:
      m=int(rem//60); s=int(rem%60); self.latest_eta=f"{m:02d}:{s:02d}"
  else:
      h=int(rem//3600); m=int((rem%3600)//60); s=int(rem%60)
      self.latest_eta=f"{h:02d}:{m:02d}:{s:02d}"
  \<close>
\<close>

definition format_eta :: "real \<Rightarrow> eta_label" where
  "format_eta rem =
     (if rem < 3600 then EtaMS (py_int (py_floordiv rem 60)) (py_int (py_fmod rem 60))
      else EtaHMS (py_int (py_floordiv rem 3600))
                  (py_int (py_floordiv (py_fmod rem 3600) 60))
                  (py_int (py_fmod rem 60)))"

text \<open>
  \<^verbatim>\<open>
  avg_set_time=sum(self.durations)/len(self.durations)
  per_cycle_est=avg_set_time+self.current_wait_time+3
  \<close>
  How \<open>sum\<close> adds a list of floats depends on the interpreter (a loop of rounded
  additions before Python 3.12, compensated summation from 3.12 on), so the function is
  a parameter, \<open>fsum\<close>.
\<close>

definition per_cycle_est :: "(real list \<Rightarrow> real) \<Rightarrow> panel \<Rightarrow> real" where
  "per_cycle_est fsum p =
     fadd (fadd (fdiv (fsum (durations p)) (py_float (int (length (durations p)))))
                (current_wait_time p)) 3"

text \<open>
  \<^verbatim>\<open>
  def _update_eta(self):
      if not self.total_cycles: self.latest_eta="\<infinity>"; return
      attempts_done=self.success_count+self.fail_count
      remaining=self.total_cycles-attempts_done
      if remaining<=0: self.latest_eta="0s"; return
      if not self.durations: self.latest_eta="-"; return
      ...
      rem=remaining*per_cycle_est
  \<close>
\<close>

definition update_eta :: "(real list \<Rightarrow> real) \<Rightarrow> panel \<Rightarrow> panel" where
  "update_eta fsum p =
     (case total_cycles p of
        None \<Rightarrow> p\<lparr>latest_eta := EtaInfinite\<rparr>
      | Some c \<Rightarrow>
          if c = 0 then p\<lparr>latest_eta := EtaInfinite\<rparr>
          else if c - (success_count p + fail_count p) \<le> 0 then p\<lparr>latest_eta := EtaZero\<rparr>
          else if durations p = [] then p\<lparr>latest_eta := EtaDash\<rparr>
          else p\<lparr>latest_eta :=
                 format_eta (fmul (py_float (c - (success_count p + fail_count p)))
                                  (per_cycle_est fsum p))\<rparr>)"

definition update_timer :: "panel \<Rightarrow> panel" where
  "update_timer p = p\<lparr>elapsed_seconds := elapsed_seconds p + 1\<rparr>"

text \<open>
  \<^verbatim>\<open>
  def on_result(self,success,duration,wavelength):
      if self.aborted: return
      if success:
          self.success_count+=1; self.total_time+=duration; self.success_wavelengths.append(wavelength)
      else:
          self.fail_count+=1; self.failed_wavelengths.append(wavelength)
      self.durations.append(duration); self.wavelengths.append(wavelength)
      ...
      self._update_chart(); self._update_eta(); self._update_timer()
  \<close>
\<close>

definition on_result ::
  "(real list \<Rightarrow> real) \<Rightarrow> panel \<Rightarrow> bool \<Rightarrow> real \<Rightarrow> real \<Rightarrow> panel" where
  "on_result fsum p success duration wl =
     (if aborted p then p
      else update_timer (update_eta fsum
        ((if success
          then p\<lparr>success_count := success_count p + 1,
                 total_time := fadd (total_time p) duration,
                 success_wavelengths := success_wavelengths p @ [wl]\<rparr>
          else p\<lparr>fail_count := fail_count p + 1,
                 failed_wavelengths := failed_wavelengths p @ [wl]\<rparr>)
         \<lparr>durations := durations p @ [duration], wavelengths := wavelengths p @ [wl]\<rparr>)))"

text \<open>
  The panel as \<open>on_start\<close> leaves it: statistics cleared (\<open>_clear_statistics\<close>),
  \<open>total_cycles=params['cycles'] if params['cycles'] and params['cycles']>0 else None\<close>,
  \<open>current_wait_time=params['wait_time']\<close>, \<open>latest_eta="-" if self.total_cycles else "\<infinity>"\<close>.
\<close>

definition on_start :: "params \<Rightarrow> panel" where
  "on_start prm =
     \<lparr> success_count = 0, fail_count = 0, total_time = 0, durations = [], wavelengths = [],
       success_wavelengths = [], failed_wavelengths = [],
       total_cycles = init_cycles (cycles prm),
       current_wait_time = wait_time prm,
       latest_eta = (if init_cycles (cycles prm) = None then EtaInfinite else EtaDash),
       elapsed_seconds = 0, aborted = False \<rparr>"

text \<open>The panel after the outcomes \<open>(success, duration, wavelength)\<close> of a run, in order.\<close>

fun on_results ::
  "(real list \<Rightarrow> real) \<Rightarrow> panel \<Rightarrow> (bool \<times> real \<times> real) list \<Rightarrow> panel" where
  "on_results fsum p [] = p"
| "on_results fsum p ((success, duration, wl) # rs) =
     on_results fsum (on_result fsum p success duration wl) rs"

section \<open>What the polls of an attempt report\<close>

text \<open>
  The observations the specification speaks of.  A reply reports the setting active when
  \<open>IsWavelengthSettingActive\<close> is true, cleared when it is false, and a successful
  settle when \<open>WavelengthSettingState\<close> is \<open>"Success"\<close>; a missing reply reports nothing.
\<close>

definition reports_active :: "chan_status option \<Rightarrow> bool" where
  "reports_active r = (case r of None \<Rightarrow> False | Some st \<Rightarrow> setting_active st = Some True)"

definition reports_cleared :: "chan_status option \<Rightarrow> bool" where
  "reports_cleared r = (case r of None \<Rightarrow> False | Some st \<Rightarrow> setting_active st = Some False)"

definition reports_success :: "chan_status option \<Rightarrow> bool" where
  "reports_success r = (case r of None \<Rightarrow> False | Some st \<Rightarrow> setting_state st = Some ''Success'')"

text \<open>
  Poll number \<open>i\<close> is the first of the \<open>n\<close> polls numbered from \<open>p\<close> whose reply
  satisfies \<open>P\<close>.
\<close>

definition first_poll :: "env \<Rightarrow> (chan_status option \<Rightarrow> bool) \<Rightarrow> nat \<Rightarrow> nat \<Rightarrow> nat \<Rightarrow> bool" where
  "first_poll env P p n i =
     (p \<le> i \<and> i < p + n \<and> P (poll_resp env i) \<and> (\<forall>j. p \<le> j \<and> j < i \<longrightarrow> \<not> P (poll_resp env j)))"

text \<open>
  Claim C1 in the specification's words: within the budget of 10 polls the flag becomes
  true, and within the budget of 120 further polls it clears, with the state
  \<open>"Success"\<close>.  The polls are numbered from \<open>p\<close>.
\<close>

definition settles_successfully :: "env \<Rightarrow> nat \<Rightarrow> bool" where
  "settles_successfully env p =
     (\<exists>i k. first_poll env reports_active p 10 i
          \<and> first_poll env reports_cleared (Suc i) 120 k
          \<and> reports_success (poll_resp env k))"

text \<open>
  Within an attempt every poll is preceded by one reading of \<open>self.running\<close>.  Poll
  number \<open>i\<close> is the first of the \<open>n\<close> polls numbered from \<open>p\<close> whose reply satisfies
  \<open>P\<close>, and the worker is found running at each reading up to that poll, the readings
  being numbered from \<open>r\<close>.
\<close>

definition first_poll_running ::
  "env \<Rightarrow> (chan_status option \<Rightarrow> bool) \<Rightarrow> nat \<Rightarrow> nat \<Rightarrow> nat \<Rightarrow> nat \<Rightarrow> bool" where
  "first_poll_running env P r p n i =
     (first_poll env P p n i \<and> (\<forall>j. j \<le> i - p \<longrightarrow> running_read env (r + j)))"

text \<open>
  Claim C1 as amended: the worker is found running before each poll made, within the budget
  of 10 polls the flag becomes true, and within the budget of 120 further polls it clears,
  with the state \<open>"Success"\<close>.  The polls are numbered from \<open>p\<close>, the readings of
  \<open>self.running\<close> from \<open>r\<close>.
\<close>

definition settles_while_running :: "env \<Rightarrow> nat \<Rightarrow> nat \<Rightarrow> bool" where
  "settles_while_running env r p =
     (\<exists>i k. first_poll env reports_active p 10 i
          \<and> first_poll env reports_cleared (Suc i) 120 k
          \<and> reports_success (poll_resp env k)
          \<and> (\<forall>j. j \<le> k - p \<longrightarrow> running_read env (r + j)))"

text \<open>The same search as a function, for the proofs.\<close>

fun first_within :: "(nat \<Rightarrow> bool) \<Rightarrow> nat \<Rightarrow> nat \<Rightarrow> nat option" where
  "first_within A p 0 = None"
| "first_within A p (Suc n) = (if A p then Some p else first_within A (Suc p) n)"

text \<open>
  What a polling loop may change: it consumes polls and reads of \<open>self.running\<close>, and
  emits status commands, connection-loss signals and sleeps.
\<close>

definition polls_only :: "nat \<Rightarrow> world \<Rightarrow> world \<Rightarrow> bool" where
  "polls_only ch w w' =
     (n_put w' = n_put w \<and> n_conn w' = n_conn w \<and> n_power w' = n_power w
      \<and> n_rand w' = n_rand w \<and> n_clock w' = n_clock w \<and> fail_log w' = fail_log w
      \<and> n_poll w \<le> n_poll w' \<and> n_run w \<le> n_run w'
      \<and> (\<exists>es. events w' = events w @ es
              \<and> set es \<subseteq> {CommandSent (GetStatus ch), ConnectionLost, Sleep (1/2), Sleep 1}))"

text \<open>
  What one attempt may change: it sends one \<open>PUT\<close>, reads the clock twice, polls at most
  130 times, and emits the \<open>PUT\<close> command followed by what the polling loops emit.
\<close>

definition attempt_effect :: "nat \<Rightarrow> real \<Rightarrow> world \<Rightarrow> world \<Rightarrow> bool" where
  "attempt_effect ch wl w w' =
     (n_put w' = Suc (n_put w) \<and> n_clock w' = Suc (Suc (n_clock w)) \<and> n_conn w' = n_conn w
      \<and> n_power w' = n_power w \<and> n_rand w' = n_rand w \<and> fail_log w' = fail_log w
      \<and> n_poll w \<le> n_poll w' \<and> n_poll w' \<le> n_poll w + 130 \<and> n_run w \<le> n_run w'
      \<and> (\<exists>es. events w' = events w @ CommandSent (PutWavelength ch wl) # es
              \<and> set es \<subseteq> {CommandSent (GetStatus ch), ConnectionLost, Sleep (1/2), Sleep 1}))"

section \<open>Observations on a run\<close>

text \<open>The \<open>k\<close>-th call of \<open>check_connection\<close> finds the device reachable.\<close>

definition reachable :: "env \<Rightarrow> nat \<Rightarrow> bool" where
  "reachable env k = (case conn_resp env k of None \<Rightarrow> False | Some r \<Rightarrow> status_ok r)"

text \<open>The loop condition of \<open>run\<close> apart from the stop flag.\<close>

definition cycles_left :: "worker \<Rightarrow> int \<Rightarrow> bool" where
  "cycles_left wk attempts = (case w_cycles wk of None \<Rightarrow> True | Some c \<Rightarrow> attempts < c)"

text \<open>The outcomes emitted (\<open>update_status\<close>) among some events.\<close>

fun emitted_outcomes :: "event list \<Rightarrow> (bool \<times> real \<times> real) list" where
  "emitted_outcomes [] = []"
| "emitted_outcomes (UpdateStatus s d wl # es) = (s, d, wl) # emitted_outcomes es"
| "emitted_outcomes (e # es) = emitted_outcomes es"

text \<open>The wavelengths commanded to the device (\<open>PUT\<close>) among some events.\<close>

fun commanded_wavelengths :: "event list \<Rightarrow> real list" where
  "commanded_wavelengths [] = []"
| "commanded_wavelengths (CommandSent (PutWavelength ch wl) # es) = wl # commanded_wavelengths es"
| "commanded_wavelengths (e # es) = commanded_wavelengths es"

text \<open>An entry of \<open>test_results\<close> as the arguments of the \<open>update_status\<close> signal.\<close>

definition outcome_signal :: "attempt_outcome \<Rightarrow> bool \<times> real \<times> real" where
  "outcome_signal r = (wl_success r, wl_duration r, wavelength r)"

text \<open>
  The sample points of the power curve in closed form, as claim C3 is amended: the single
  point \<open>int((min + max) / 2)\<close> when the float \<open>max - min\<close> is below 10, otherwise
  \<open>int(min)\<close>, \<open>int(min) + 10\<close>, ... up to \<open>int(max)\<close>, and \<open>int(max)\<close> itself as the last
  point when it is off that grid.
\<close>

definition sample_grid :: "real \<Rightarrow> real \<Rightarrow> int list" where
  "sample_grid lo hi =
     (if fsub hi lo < 10 then [py_int (fdiv (fadd lo hi) 2)]
      else map (\<lambda>k. py_int lo + 10 * int k) [0..<Suc (nat ((py_int hi - py_int lo) div 10))]
           @ (if (py_int hi - py_int lo) mod 10 = 0 then [] else [py_int hi]))"

text \<open>
  \<open>sum\<close> over a list of floats as a loop of float additions from \<open>0\<close>, which is what the
  interpreter does before Python 3.12.
\<close>

definition sum_left :: "real list \<Rightarrow> real" where
  "sum_left xs = foldl fadd 0 xs"

section \<open>Concrete devices and runs\<close>

definition world0 :: world where
  "world0 = \<lparr> n_conn = 0, n_put = 0, n_poll = 0, n_power = 0, n_rand = 0, n_run = 0,
              n_clock = 0, events = [], fail_log = [] \<rparr>"

definition reply :: "bool option \<Rightarrow> string option \<Rightarrow> chan_status option" where
  "reply a s = Some \<lparr> status_ok = True, setting_active = a, setting_state = s \<rparr>"

text \<open>
  A device that answers everything, reports the setting active at the first poll and
  cleared with \<open>"Success"\<close> from the second poll on; the worker is never stopped and the
  clock advances by one second per reading.
\<close>

definition prompt_env :: env where
  "prompt_env =
     \<lparr> conn_resp = (\<lambda>k. reply None None),
       put_resp = (\<lambda>k. True),
       poll_resp = (\<lambda>k. if k = 0 then reply (Some True) None
                         else reply (Some False) (Some ''Success'')),
       power_resp = (\<lambda>k. None),
       random_unit = (\<lambda>k. 1/2),
       running_read = (\<lambda>k. True),
       clock = (\<lambda>k. real k) \<rparr>"

text \<open>
  A device whose first ten status polls get no response and that reports the setting
  active from the eleventh poll on.
\<close>

definition lossy_env :: env where
  "lossy_env = prompt_env\<lparr>poll_resp := (\<lambda>k. if k < 10 then None else reply (Some True) None)\<rparr>"

text \<open>
  The device of \<open>prompt_env\<close> with a worker that is stopped after the first reading of
  \<open>self.running\<close>.
\<close>

definition stopped_env :: env where
  "stopped_env = prompt_env\<lparr>running_read := (\<lambda>k. k = 0)\<rparr>"

text \<open>A device that is never reachable.\<close>

definition offline_env :: env where
  "offline_env = prompt_env\<lparr>conn_resp := (\<lambda>k. None)\<rparr>"

text \<open>A request for two cycles on \<open>[800, 900]\<close> and a worker for it on the device range \<open>[700, 1000]\<close>.\<close>

definition demo_params :: params where
  "demo_params = \<lparr> test_min = Some 800, test_max = Some 900, wait_time = 3,
                    cycles = Some 2, measure_power_curve = False \<rparr>"

definition demo_worker :: worker where
  "demo_worker = TestWorker_init 1 demo_params (Some 700, Some 1000)"

text \<open>
  A device whose first two reachability checks fail and that is reachable from the third
  check on.
\<close>

definition flaky_env :: env where
  "flaky_env = prompt_env\<lparr>conn_resp := (\<lambda>k. if k < 2 then None else reply None None)\<rparr>"

text \<open>A device whose first reachability check fails and that is reachable afterwards.\<close>

definition blip_env :: env where
  "blip_env = prompt_env\<lparr>conn_resp := (\<lambda>k. if k = 0 then None else reply None None)\<rparr>"

text \<open>A worker with an unbounded cycle count.\<close>

definition endless_worker :: worker where
  "endless_worker = TestWorker_init 1 (demo_params\<lparr>cycles := None\<rparr>) (Some 700, Some 1000)"

section \<open>Properties of the float arithmetic\<close>

lemma py_round_half_even_of_int: "py_round_half_even (of_int n) = n"
  by (simp add: py_round_half_even_def)

lemma py_round_half_even_nonpos:
  assumes "y \<le> 0"
  shows "py_round_half_even y \<le> 0"
proof (cases "y = of_int \<lfloor>y\<rfloor>")
  case True
  then have "py_round_half_even y = \<lfloor>y\<rfloor>"
    by (simp add: py_round_half_even_def)
  with assms show ?thesis by (simp add: floor_le_iff)
next
  case False
  have "of_int \<lfloor>y\<rfloor> \<le> y" by simp
  with False have "of_int \<lfloor>y\<rfloor> < y" by linarith
  with assms have "of_int \<lfloor>y\<rfloor> < (0::real)" by linarith
  then have "\<lfloor>y\<rfloor> < 0" by simp
  then have "\<lfloor>y\<rfloor> + 1 \<le> 0" by linarith
  moreover have "py_round_half_even y \<le> \<lfloor>y\<rfloor> + 1"
    by (simp add: py_round_half_even_def)
  ultimately show ?thesis by linarith
qed

lemma round_double_nonpos:
  assumes "x \<le> 0"
  shows "round_double x \<le> 0"
proof (cases "x = 0")
  case True
  then show ?thesis by (simp add: round_double_def)
next
  case False
  define u :: real where "u = 2 powr of_int (ulp_exponent x)"
  have u: "0 < u" by (simp add: u_def)
  with assms have "x / u \<le> 0" by (simp add: divide_nonpos_pos)
  then have "py_round_half_even (x / u) \<le> 0" by (rule py_round_half_even_nonpos)
  then have "real_of_int (py_round_half_even (x / u)) \<le> 0" by simp
  with u have "u * of_int (py_round_half_even (x / u)) \<le> 0"
    by (simp add: mult_nonneg_nonpos)
  with False show ?thesis by (simp add: round_double_def u_def)
qed

lemma round_double_dyadic:
  assumes "\<bar>m\<bar> < 2 ^ 53" "- 1074 \<le> k"
  shows "round_double (of_int m * 2 powr of_int k) = of_int m * 2 powr of_int k"
proof (cases "m = 0")
  case True
  then show ?thesis by (simp add: round_double_def)
next
  case False
  define x :: real where "x = of_int m * 2 powr of_int k"
  define e where "e = ulp_exponent x"
  have xn: "x \<noteq> 0" using False by (simp add: x_def)
  have ax: "\<bar>x\<bar> = of_int \<bar>m\<bar> * 2 powr of_int k"
    by (simp add: x_def abs_mult)
  have "real_of_int \<bar>m\<bar> < 2 ^ 53"
    using assms(1) by (metis of_int_less_iff of_int_numeral of_int_power)
  then have "of_int \<bar>m\<bar> * 2 powr of_int k < (2::real) ^ 53 * 2 powr of_int k"
    by (simp add: mult_strict_right_mono)
  also have "\<dots> = 2 powr (53 + of_int k)"
    by (simp add: powr_add powr_realpow[symmetric])
  finally have "\<bar>x\<bar> < 2 powr (of_int (53 + k))"
    by (simp add: ax)
  then have "log 2 \<bar>x\<bar> < of_int (53 + k)"
    using xn by (subst log_less_iff) simp_all
  then have "\<lfloor>log 2 \<bar>x\<bar>\<rfloor> < 53 + k"
    by (simp add: floor_less_iff)
  with assms(2) have d: "0 \<le> k - e"
    by (simp add: e_def ulp_exponent_def)
  define d where "d = nat (k - e)"
  have kd: "real_of_int k = of_int e + real d"
    using d by (simp add: d_def)
  have pd: "(2::real) powr of_int k = 2 powr of_int e * 2 ^ d"
    unfolding kd by (simp add: powr_add powr_realpow)
  have q: "x / 2 powr of_int e = of_int (m * 2 ^ d)"
    by (simp add: x_def pd)
  have "round_double x = 2 powr of_int e * of_int (py_round_half_even (x / 2 powr of_int e))"
    using xn by (simp add: round_double_def e_def)
  also have "\<dots> = 2 powr of_int e * of_int (m * 2 ^ d)"
    by (simp only: q py_round_half_even_of_int)
  also have "\<dots> = x"
    by (simp add: x_def pd)
  finally show ?thesis by (simp add: x_def)
qed

lemma round_double_of_int:
  assumes "\<bar>m\<bar> < 2 ^ 53"
  shows "round_double (of_int m) = of_int m"
  using round_double_dyadic[OF assms, of 0] by simp

lemma round_double_half:
  assumes "\<bar>m\<bar> < 2 ^ 53"
  shows "round_double (of_int m / 2) = of_int m / 2"
proof -
  have "(2::real) powr of_int (-1) = 1 / 2"
    by (simp add: powr_minus_divide)
  with round_double_dyadic[OF assms, of "-1"] show ?thesis by simp
qed

lemma round_double_numeral [simp]:
  "(numeral n :: int) < 2 ^ 53 \<Longrightarrow> round_double (numeral n) = numeral n"
  using round_double_of_int[of "numeral n"] by simp

lemma round_double_numeral_half [simp]:
  "(numeral n :: int) < 2 ^ 53 \<Longrightarrow> round_double (numeral n / 2) = numeral n / 2"
  using round_double_half[of "numeral n"] by simp

lemma round_double_0 [simp]: "round_double 0 = 0"
  by (simp add: round_double_def)

lemma round_double_1 [simp]: "round_double 1 = 1"
  using round_double_of_int[of 1] by simp

section \<open>Properties of the range resolution\<close>

text \<open>
  Claim C7, as stated, fails on a half-set request: with only the maximum requested,
  \<open>__init__\<close> discards it together with the unset minimum, while the claim clamps it.
  Requested \<open>(None, 900)\<close> on the device range \<open>[700, 1000]\<close> resolves to \<open>[700, 1000]\<close>,
  not to \<open>[700, 900]\<close>.
\<close>

theorem resolve_range_half_set_counterexample:
  "resolve_range None (Some 900) (Some 700) (Some 1000) = (Some 700, Some 1000)
   \<and> resolve_range None (Some 900) (Some 700) (Some 1000)
       \<noteq> map_prod Some Some (resolve_per_bound None (Some 900) 700 1000)"
  by (simp add: resolve_range_def resolve_per_bound_def)

text \<open>
  Claim C7, amended.  For every requested interval and every known device range
  \<open>(dlo, dhi)\<close>, the constructor resolves the range without error to a pair of known
  bounds \<open>(lo, hi)\<close> with \<open>dlo \<le> lo\<close> and \<open>hi \<le> dhi\<close>.  If either requested bound is unset,
  both are taken from the device range.  If both are set, the minimum is clamped up to
  \<open>dlo\<close> and the maximum down to \<open>dhi\<close>; when the clamped interval is degenerate
  (\<open>min \<ge> max\<close>) the result is the device range unchanged.
\<close>

theorem resolve_range_contained:
  "\<exists>lo hi. resolve_range rmin rmax (Some dlo) (Some dhi) = (Some lo, Some hi)
      \<and> dlo \<le> lo \<and> hi \<le> dhi
      \<and> (if rmin = None \<or> rmax = None then (lo, hi) = (dlo, dhi)
         else if max (the rmin) dlo \<ge> min (the rmax) dhi then (lo, hi) = (dlo, dhi)
         else (lo, hi) = (max (the rmin) dlo, min (the rmax) dhi))"
  by (cases rmin; cases rmax) (auto simp: resolve_range_def)

theorem resolve_range_contained_witness:
  "resolve_range (Some 650) (Some 900) (Some 700) (Some 1000) = (Some 700, Some 900)"
  using resolve_range_contained[of "Some 650" "Some 900" 700 1000]
  by auto

section \<open>Properties of one attempt\<close>

lemmas io_defs = emit_def sleep_def read_running_def time_time_def check_connection_def
  get_status_def put_wavelength_def get_power_def

lemma first_within_Some:
  "first_within A p n = Some i \<longleftrightarrow>
     p \<le> i \<and> i < p + n \<and> A i \<and> (\<forall>j. p \<le> j \<and> j < i \<longrightarrow> \<not> A j)"
proof (induction n arbitrary: p)
  case 0
  then show ?case by auto
next
  case (Suc n)
  show ?case
  proof (cases "A p")
    case True
    then show ?thesis by (auto simp: le_less)
  next
    case False
    have "(\<forall>j. Suc p \<le> j \<and> j < i \<longrightarrow> \<not> A j) = (\<forall>j. p \<le> j \<and> j < i \<longrightarrow> \<not> A j)"
      using False by (metis Suc_leD Suc_leI le_neq_implies_less)
    moreover have "A i \<Longrightarrow> (Suc p \<le> i) = (p \<le> i)"
      using False by (metis Suc_leD Suc_leI le_neq_implies_less)
    ultimately show ?thesis using False
      by (auto simp: Suc.IH)
  qed
qed

lemma first_within_None:
  "first_within A p n = None \<longleftrightarrow> (\<forall>i. p \<le> i \<and> i < p + n \<longrightarrow> \<not> A i)"
proof (induction n arbitrary: p)
  case 0
  then show ?case by auto
next
  case (Suc n)
  have "(\<forall>i. Suc p \<le> i \<and> i < Suc p + n \<longrightarrow> \<not> A i) \<and> \<not> A p
        \<longleftrightarrow> (\<forall>i. p \<le> i \<and> i < p + Suc n \<longrightarrow> \<not> A i)"
    by (metis Suc_leD Suc_leI le_neq_implies_less add_Suc_right add_Suc le_refl less_add_Suc1)
  then show ?case
    by (auto simp: Suc.IH)
qed

lemma first_poll_first_within:
  "first_poll env P p n i \<longleftrightarrow> first_within (\<lambda>j. P (poll_resp env j)) p n = Some i"
  by (simp add: first_poll_def first_within_Some)

lemma first_poll_unique:
  "first_poll env P p n i \<Longrightarrow> first_poll env P p n j \<Longrightarrow> i = j"
  by (simp add: first_poll_first_within)

lemma polls_only_refl: "polls_only ch w w"
  by (simp add: polls_only_def)

lemma polls_only_trans:
  assumes "polls_only ch w w1" "polls_only ch w1 w2"
  shows "polls_only ch w w2"
proof -
  from assms(1) obtain es where es: "events w1 = events w @ es"
      "set es \<subseteq> {CommandSent (GetStatus ch), ConnectionLost, Sleep (1/2), Sleep 1}"
    unfolding polls_only_def by blast
  from assms(2) obtain fs where fs: "events w2 = events w1 @ fs"
      "set fs \<subseteq> {CommandSent (GetStatus ch), ConnectionLost, Sleep (1/2), Sleep 1}"
    unfolding polls_only_def by blast
  have "events w2 = events w @ (es @ fs)"
    "set (es @ fs) \<subseteq> {CommandSent (GetStatus ch), ConnectionLost, Sleep (1/2), Sleep 1}"
    using es fs by simp_all
  then have "\<exists>gs. events w2 = events w @ gs
     \<and> set gs \<subseteq> {CommandSent (GetStatus ch), ConnectionLost, Sleep (1/2), Sleep 1}"
    by blast
  with assms show ?thesis
    unfolding polls_only_def by simp
qed

text \<open>The three ways through one iteration of the activation loop.\<close>

declare activation_loop.simps(2) [simp del] completion_loop.simps(2) [simp del]

lemma activation_loop_stop:
  assumes "\<not> running_read env (n_run w)"
  shows "activation_loop env ch (Suc n) w = (False, w\<lparr>n_run := Suc (n_run w)\<rparr>)"
  using assms by (simp add: activation_loop.simps(2) io_defs)

lemma activation_loop_active:
  assumes "running_read env (n_run w)" "reports_active (poll_resp env (n_poll w))"
  shows "\<exists>w1. activation_loop env ch (Suc n) w = (True, w1)
     \<and> n_poll w1 = Suc (n_poll w) \<and> n_run w1 = Suc (n_run w) \<and> polls_only ch w w1"
proof -
  from assms(2) obtain st where "poll_resp env (n_poll w) = Some st" "setting_active st = Some True"
    by (auto simp: reports_active_def split: option.splits)
  with assms(1) show ?thesis
    by (simp add: activation_loop.simps(2) io_defs polls_only_def)
qed

lemma activation_loop_continue:
  assumes "running_read env (n_run w)" "\<not> reports_active (poll_resp env (n_poll w))"
  shows "\<exists>w1. activation_loop env ch (Suc n) w = activation_loop env ch n w1
     \<and> n_poll w1 = Suc (n_poll w) \<and> n_run w1 = Suc (n_run w) \<and> polls_only ch w w1"
proof (cases "poll_resp env (n_poll w)")
  case None
  let ?w1 = "sleep (1/2) (emit ConnectionLost
      (snd (get_status env (emit (CommandSent (GetStatus ch)) (snd (read_running env w))))))"
  have "activation_loop env ch (Suc n) w = activation_loop env ch n ?w1"
    using assms(1) None by (simp add: activation_loop.simps(2) io_defs)
  moreover have "n_poll ?w1 = Suc (n_poll w)" "n_run ?w1 = Suc (n_run w)"
    by (simp_all add: io_defs)
  moreover have "polls_only ch w ?w1"
    by (simp add: io_defs polls_only_def)
  ultimately show ?thesis by blast
next
  case (Some st)
  with assms have na: "setting_active st \<noteq> Some True"
    by (simp add: reports_active_def)
  let ?w1 = "sleep (1/2)
      (snd (get_status env (emit (CommandSent (GetStatus ch)) (snd (read_running env w)))))"
  have "activation_loop env ch (Suc n) w = activation_loop env ch n ?w1"
    using assms(1) Some na by (simp add: activation_loop.simps(2) io_defs)
  moreover have "n_poll ?w1 = Suc (n_poll w)" "n_run ?w1 = Suc (n_run w)"
    by (simp_all add: io_defs)
  moreover have "polls_only ch w ?w1"
    by (simp add: io_defs polls_only_def)
  ultimately show ?thesis by blast
qed

lemma activation_loop_frame:
  "activation_loop env ch n w = (b, w') \<Longrightarrow> polls_only ch w w' \<and> n_poll w' \<le> n_poll w + n"
proof (induction n arbitrary: w)
  case 0
  then show ?case by (simp add: polls_only_refl)
next
  case (Suc n)
  consider (stop) "\<not> running_read env (n_run w)"
    | (active) "running_read env (n_run w)" "reports_active (poll_resp env (n_poll w))"
    | (continue) "running_read env (n_run w)" "\<not> reports_active (poll_resp env (n_poll w))"
    by blast
  then show ?case
  proof cases
    case stop
    from activation_loop_stop[OF stop] Suc.prems show ?thesis
      by (auto simp: polls_only_def)
  next
    case active
    from activation_loop_active[OF active, of ch n] Suc.prems show ?thesis
      by auto
  next
    case continue
    from activation_loop_continue[OF continue, of ch n] obtain w1 where
      w1: "activation_loop env ch (Suc n) w = activation_loop env ch n w1"
          "n_poll w1 = Suc (n_poll w)" "polls_only ch w w1"
      by blast
    with Suc.prems have "activation_loop env ch n w1 = (b, w')" by simp
    from Suc.IH[OF this] w1 show ?thesis
      by (auto intro: polls_only_trans)
  qed
qed

lemma activation_loop_true:
  "activation_loop env ch n w = (True, w') \<Longrightarrow>
     \<exists>i. first_poll env reports_active (n_poll w) n i \<and> n_poll w' = Suc i"
proof (induction n arbitrary: w)
  case 0
  then show ?case by simp
next
  case (Suc n)
  consider (stop) "\<not> running_read env (n_run w)"
    | (active) "running_read env (n_run w)" "reports_active (poll_resp env (n_poll w))"
    | (continue) "running_read env (n_run w)" "\<not> reports_active (poll_resp env (n_poll w))"
    by blast
  then show ?case
  proof cases
    case stop
    from activation_loop_stop[OF stop] Suc.prems show ?thesis by simp
  next
    case active
    from activation_loop_active[OF active, of ch n] Suc.prems
    have "n_poll w' = Suc (n_poll w)" by auto
    with active show ?thesis
      by (simp add: first_poll_first_within)
  next
    case continue
    from activation_loop_continue[OF continue, of ch n] obtain w1 where
      w1: "activation_loop env ch (Suc n) w = activation_loop env ch n w1"
          "n_poll w1 = Suc (n_poll w)"
      by blast
    with Suc.prems have "activation_loop env ch n w1 = (True, w')" by simp
    from Suc.IH[OF this] w1 continue show ?thesis
      by (simp add: first_poll_first_within)
  qed
qed

lemma activation_loop_false:
  assumes run: "\<forall>k. running_read env k"
  shows "activation_loop env ch n w = (False, w') \<Longrightarrow>
     (\<forall>i. \<not> first_poll env reports_active (n_poll w) n i) \<and> n_poll w' = n_poll w + n"
proof (induction n arbitrary: w)
  case 0
  then show ?case by (simp add: first_poll_first_within)
next
  case (Suc n)
  from run have r: "running_read env (n_run w)" by simp
  show ?case
  proof (cases "reports_active (poll_resp env (n_poll w))")
    case True
    from activation_loop_active[OF r True, of ch n] Suc.prems show ?thesis by auto
  next
    case False
    from activation_loop_continue[OF r False, of ch n] obtain w1 where
      w1: "activation_loop env ch (Suc n) w = activation_loop env ch n w1"
          "n_poll w1 = Suc (n_poll w)"
      by blast
    with Suc.prems have "activation_loop env ch n w1 = (False, w')" by simp
    from Suc.IH[OF this] w1 False show ?thesis
      by (simp add: first_poll_first_within)
  qed
qed

text \<open>The three ways through one iteration of the completion loop.\<close>

lemma completion_loop_stop:
  assumes "\<not> running_read env (n_run w)"
  shows "completion_loop env ch (Suc n) w = (False, w\<lparr>n_run := Suc (n_run w)\<rparr>)"
  using assms by (simp add: completion_loop.simps(2) io_defs)

lemma completion_loop_cleared:
  assumes "running_read env (n_run w)" "reports_cleared (poll_resp env (n_poll w))"
  shows "\<exists>w1. completion_loop env ch (Suc n) w = (reports_success (poll_resp env (n_poll w)), w1)
     \<and> n_poll w1 = Suc (n_poll w) \<and> n_run w1 = Suc (n_run w) \<and> polls_only ch w w1"
proof -
  from assms(2) obtain st where "poll_resp env (n_poll w) = Some st" "setting_active st = Some False"
    by (auto simp: reports_cleared_def split: option.splits)
  with assms(1) show ?thesis
    by (simp add: completion_loop.simps(2) io_defs polls_only_def reports_success_def)
qed

lemma completion_loop_continue:
  assumes "running_read env (n_run w)" "\<not> reports_cleared (poll_resp env (n_poll w))"
  shows "\<exists>w1. completion_loop env ch (Suc n) w = completion_loop env ch n w1
     \<and> n_poll w1 = Suc (n_poll w) \<and> n_run w1 = Suc (n_run w) \<and> polls_only ch w w1"
proof (cases "poll_resp env (n_poll w)")
  case None
  let ?w1 = "sleep 1 (emit ConnectionLost
      (snd (get_status env (emit (CommandSent (GetStatus ch)) (snd (read_running env w))))))"
  have "completion_loop env ch (Suc n) w = completion_loop env ch n ?w1"
    using assms(1) None by (simp add: completion_loop.simps(2) io_defs)
  moreover have "n_poll ?w1 = Suc (n_poll w)" "n_run ?w1 = Suc (n_run w)"
    by (simp_all add: io_defs)
  moreover have "polls_only ch w ?w1"
    by (simp add: io_defs polls_only_def)
  ultimately show ?thesis by blast
next
  case (Some st)
  with assms have na: "setting_active st \<noteq> Some False"
    by (simp add: reports_cleared_def)
  let ?w1 = "sleep 1
      (snd (get_status env (emit (CommandSent (GetStatus ch)) (snd (read_running env w)))))"
  have "completion_loop env ch (Suc n) w = completion_loop env ch n ?w1"
    using assms(1) Some na by (simp add: completion_loop.simps(2) io_defs)
  moreover have "n_poll ?w1 = Suc (n_poll w)" "n_run ?w1 = Suc (n_run w)"
    by (simp_all add: io_defs)
  moreover have "polls_only ch w ?w1"
    by (simp add: io_defs polls_only_def)
  ultimately show ?thesis by blast
qed

lemma completion_loop_frame:
  "completion_loop env ch n w = (b, w') \<Longrightarrow> polls_only ch w w' \<and> n_poll w' \<le> n_poll w + n"
proof (induction n arbitrary: w)
  case 0
  then show ?case by (simp add: polls_only_refl)
next
  case (Suc n)
  consider (stop) "\<not> running_read env (n_run w)"
    | (cleared) "running_read env (n_run w)" "reports_cleared (poll_resp env (n_poll w))"
    | (continue) "running_read env (n_run w)" "\<not> reports_cleared (poll_resp env (n_poll w))"
    by blast
  then show ?case
  proof cases
    case stop
    from completion_loop_stop[OF stop] Suc.prems show ?thesis
      by (auto simp: polls_only_def)
  next
    case cleared
    from completion_loop_cleared[OF cleared, of ch n] Suc.prems show ?thesis
      by auto
  next
    case continue
    from completion_loop_continue[OF continue, of ch n] obtain w1 where
      w1: "completion_loop env ch (Suc n) w = completion_loop env ch n w1"
          "n_poll w1 = Suc (n_poll w)" "polls_only ch w w1"
      by blast
    with Suc.prems have "completion_loop env ch n w1 = (b, w')" by simp
    from Suc.IH[OF this] w1 show ?thesis
      by (auto intro: polls_only_trans)
  qed
qed

lemma completion_loop_true:
  "completion_loop env ch n w = (True, w') \<Longrightarrow>
     \<exists>k. first_poll env reports_cleared (n_poll w) n k \<and> reports_success (poll_resp env k)"
proof (induction n arbitrary: w)
  case 0
  then show ?case by simp
next
  case (Suc n)
  consider (stop) "\<not> running_read env (n_run w)"
    | (cleared) "running_read env (n_run w)" "reports_cleared (poll_resp env (n_poll w))"
    | (continue) "running_read env (n_run w)" "\<not> reports_cleared (poll_resp env (n_poll w))"
    by blast
  then show ?case
  proof cases
    case stop
    from completion_loop_stop[OF stop] Suc.prems show ?thesis by simp
  next
    case cleared
    from completion_loop_cleared[OF cleared, of ch n] Suc.prems
    have "reports_success (poll_resp env (n_poll w))" by auto
    with cleared show ?thesis
      by (auto simp: first_poll_first_within)
  next
    case continue
    from completion_loop_continue[OF continue, of ch n] obtain w1 where
      w1: "completion_loop env ch (Suc n) w = completion_loop env ch n w1"
          "n_poll w1 = Suc (n_poll w)"
      by blast
    with Suc.prems have "completion_loop env ch n w1 = (True, w')" by simp
    from Suc.IH[OF this] w1 continue show ?thesis
      by (simp add: first_poll_first_within)
  qed
qed

lemma completion_loop_false:
  assumes run: "\<forall>k. running_read env k"
  shows "completion_loop env ch n w = (False, w') \<Longrightarrow>
     \<not> (\<exists>k. first_poll env reports_cleared (n_poll w) n k \<and> reports_success (poll_resp env k))"
proof (induction n arbitrary: w)
  case 0
  then show ?case by (simp add: first_poll_first_within)
next
  case (Suc n)
  from run have r: "running_read env (n_run w)" by simp
  show ?case
  proof (cases "reports_cleared (poll_resp env (n_poll w))")
    case True
    from completion_loop_cleared[OF r True, of ch n] Suc.prems
    have "\<not> reports_success (poll_resp env (n_poll w))" by auto
    with True show ?thesis
      by (auto simp: first_poll_first_within)
  next
    case False
    from completion_loop_continue[OF r False, of ch n] obtain w1 where
      w1: "completion_loop env ch (Suc n) w = completion_loop env ch n w1"
          "n_poll w1 = Suc (n_poll w)"
      by blast
    with Suc.prems have "completion_loop env ch n w1 = (False, w')" by simp
    from Suc.IH[OF this] w1 False show ?thesis
      by (simp add: first_poll_first_within)
  qed
qed

lemma activation_loop_iff:
  assumes "\<forall>k. running_read env k"
  shows "fst (activation_loop env ch n w) = (\<exists>i. first_poll env reports_active (n_poll w) n i)"
proof (cases "activation_loop env ch n w")
  case (Pair b w')
  show ?thesis
  proof (cases b)
    case True
    with Pair activation_loop_true[of env ch n w w'] show ?thesis by auto
  next
    case False
    with Pair activation_loop_false[OF assms, of ch n w w'] show ?thesis by simp
  qed
qed

lemma perform_wavelength_attempt_effect:
  assumes "perform_wavelength_attempt env ch wl w = (r, w')"
  shows "attempt_effect ch wl w w'"
proof -
  define w2 where "w2 = snd (put_wavelength env (emit (CommandSent (PutWavelength ch wl)) (snd (time_time env w))))"
  have w2: "n_put w2 = Suc (n_put w)" "n_clock w2 = Suc (n_clock w)" "n_conn w2 = n_conn w"
    "n_power w2 = n_power w" "n_rand w2 = n_rand w" "fail_log w2 = fail_log w"
    "n_poll w2 = n_poll w" "n_run w2 = n_run w"
    "events w2 = events w @ [CommandSent (PutWavelength ch wl)]"
    by (simp_all add: w2_def io_defs)
  obtain a w3 where a: "activation_loop env ch 10 w2 = (a, w3)" by fastforce
  obtain s w4 where s: "completion_loop env ch 120 w3 = (s, w4)" by fastforce
  from activation_loop_frame[OF a] have f3: "polls_only ch w2 w3" "n_poll w3 \<le> n_poll w2 + 10"
    by simp_all
  from completion_loop_frame[OF s] have f4: "polls_only ch w3 w4" "n_poll w4 \<le> n_poll w3 + 120"
    by simp_all
  have f24: "polls_only ch w2 w4" using f3(1) f4(1) by (rule polls_only_trans)
  have shape: "w' = (if \<not> put_resp env (n_put w) then snd (time_time env (emit ConnectionLost w2))
                    else if \<not> a then snd (time_time env w3) else snd (time_time env w4))"
    using assms a s
    by (auto simp: perform_wavelength_attempt_def w2_def io_defs split: prod.splits if_splits)
  have step: "attempt_effect ch wl w (snd (time_time env v))"
    if "polls_only ch w2 v" "n_poll v \<le> n_poll w2 + 130" for v
  proof -
    from that(1) obtain es where "events v = events w2 @ es"
      "set es \<subseteq> {CommandSent (GetStatus ch), ConnectionLost, Sleep (1/2), Sleep 1}"
      unfolding polls_only_def by blast
    then have "\<exists>es. events v = events w @ CommandSent (PutWavelength ch wl) # es
        \<and> set es \<subseteq> {CommandSent (GetStatus ch), ConnectionLost, Sleep (1/2), Sleep 1}"
      by (simp add: w2)
    with that show ?thesis
      by (simp add: attempt_effect_def polls_only_def w2 io_defs)
  qed
  have "polls_only ch w2 (emit ConnectionLost w2)"
    by (simp add: polls_only_def io_defs)
  moreover have "n_poll (emit ConnectionLost w2) \<le> n_poll w2 + 130"
    by (simp add: io_defs)
  ultimately have "attempt_effect ch wl w (snd (time_time env (emit ConnectionLost w2)))"
    by (rule step)
  moreover have "attempt_effect ch wl w (snd (time_time env w3))"
    using f3 by (intro step) simp_all
  moreover have "attempt_effect ch wl w (snd (time_time env w4))"
    using f24 f3 f4 by (intro step) simp_all
  ultimately show ?thesis
    by (simp add: shape)
qed

section \<open>Claims about one attempt\<close>

lemma first_poll_running_shift:
  assumes "running_read env r" "\<not> P (poll_resp env p)"
  shows "first_poll_running env P r p (Suc n) i = first_poll_running env P (Suc r) (Suc p) n i"
proof -
  have fp: "first_poll env P p (Suc n) i = first_poll env P (Suc p) n i"
    using assms(2) by (simp add: first_poll_first_within)
  show ?thesis
  proof (cases "first_poll env P (Suc p) n i")
    case False
    with fp show ?thesis by (simp add: first_poll_running_def)
  next
    case True
    then have le: "Suc p \<le> i" by (simp add: first_poll_def)
    have "(\<forall>j. j \<le> i - p \<longrightarrow> running_read env (r + j))
        = (\<forall>j. j \<le> i - Suc p \<longrightarrow> running_read env (Suc r + j))"
    proof
      assume h: "\<forall>j. j \<le> i - p \<longrightarrow> running_read env (r + j)"
      show "\<forall>j. j \<le> i - Suc p \<longrightarrow> running_read env (Suc r + j)"
      proof (intro allI impI)
        fix j assume "j \<le> i - Suc p"
        with le have "Suc j \<le> i - p" by simp
        with h have "running_read env (r + Suc j)" by blast
        then show "running_read env (Suc r + j)" by simp
      qed
    next
      assume h: "\<forall>j. j \<le> i - Suc p \<longrightarrow> running_read env (Suc r + j)"
      show "\<forall>j. j \<le> i - p \<longrightarrow> running_read env (r + j)"
      proof (intro allI impI)
        fix j assume j: "j \<le> i - p"
        show "running_read env (r + j)"
        proof (cases j)
          case 0
          with assms(1) show ?thesis by simp
        next
          case (Suc j')
          with j le have "j' \<le> i - Suc p" by simp
          with h have "running_read env (Suc r + j')" by blast
          with Suc show ?thesis by simp
        qed
      qed
    qed
    with fp show ?thesis by (simp add: first_poll_running_def)
  qed
qed

lemma first_poll_running_stopped:
  assumes "\<not> running_read env r"
  shows "\<not> first_poll_running env P r p n i"
proof
  assume "first_poll_running env P r p n i"
  then have "running_read env (r + 0)"
    unfolding first_poll_running_def by blast
  with assms show False by simp
qed

lemma first_poll_running_here:
  assumes "running_read env r" "P (poll_resp env p)"
  shows "first_poll_running env P r p (Suc n) i = (i = p)"
proof -
  have "first_poll env P p (Suc n) i = (i = p)"
    using assms(2) by (auto simp: first_poll_first_within)
  with assms(1) show ?thesis
    by (auto simp: first_poll_running_def)
qed

lemma activation_loop_exact:
  "activation_loop env ch n w = (b, w') \<Longrightarrow>
     (b \<longrightarrow> (\<exists>i. first_poll_running env reports_active (n_run w) (n_poll w) n i
              \<and> n_poll w' = Suc i \<and> n_run w' = n_run w + (Suc i - n_poll w)))
     \<and> (\<not> b \<longrightarrow> (\<forall>i. \<not> first_poll_running env reports_active (n_run w) (n_poll w) n i))"
proof (induction n arbitrary: w)
  case 0
  then show ?case by (simp add: first_poll_running_def first_poll_def)
next
  case (Suc n)
  consider (stop) "\<not> running_read env (n_run w)"
    | (active) "running_read env (n_run w)" "reports_active (poll_resp env (n_poll w))"
    | (continue) "running_read env (n_run w)" "\<not> reports_active (poll_resp env (n_poll w))"
    by blast
  then show ?case
  proof cases
    case stop
    from activation_loop_stop[OF stop, of ch n] Suc.prems have "\<not> b" by simp
    with first_poll_running_stopped[OF stop] show ?thesis by blast
  next
    case active
    from activation_loop_active[OF active, of ch n] Suc.prems
    have "b" "n_poll w' = Suc (n_poll w)" "n_run w' = Suc (n_run w)" by auto
    moreover have "first_poll_running env reports_active (n_run w) (n_poll w) (Suc n) (n_poll w)"
      using first_poll_running_here[where P=reports_active and env=env and r="n_run w"
          and p="n_poll w" and n=n and i="n_poll w"] active
      by simp
    ultimately show ?thesis by auto
  next
    case continue
    from activation_loop_continue[OF continue, of ch n] obtain w1 where
      w1: "activation_loop env ch (Suc n) w = activation_loop env ch n w1"
          "n_poll w1 = Suc (n_poll w)" "n_run w1 = Suc (n_run w)"
      by blast
    with Suc.prems have "activation_loop env ch n w1 = (b, w')" by simp
    note ih = Suc.IH[OF this, unfolded w1(2,3)]
    have sh: "first_poll_running env reports_active (n_run w) (n_poll w) (Suc n) i
        = first_poll_running env reports_active (Suc (n_run w)) (Suc (n_poll w)) n i" for i
      using first_poll_running_shift[where P=reports_active and env=env and r="n_run w"
          and p="n_poll w" and n=n and i=i] continue
      by simp
    show ?thesis
    proof (intro conjI impI)
      assume "b"
      with ih obtain i where
        i: "first_poll_running env reports_active (Suc (n_run w)) (Suc (n_poll w)) n i"
           "n_poll w' = Suc i" "n_run w' = Suc (n_run w) + (Suc i - Suc (n_poll w))"
        by blast
      from i(1) have "Suc (n_poll w) \<le> i"
        by (simp add: first_poll_running_def first_poll_def)
      with i(3) have "n_run w' = n_run w + (Suc i - n_poll w)" by simp
      with i(1,2) sh show "\<exists>i. first_poll_running env reports_active (n_run w) (n_poll w) (Suc n) i
              \<and> n_poll w' = Suc i \<and> n_run w' = n_run w + (Suc i - n_poll w)"
        by blast
    next
      assume "\<not> b"
      with ih sh show "\<forall>i. \<not> first_poll_running env reports_active (n_run w) (n_poll w) (Suc n) i"
        by simp
    qed
  qed
qed

lemma completion_loop_exact:
  "completion_loop env ch n w = (b, w') \<Longrightarrow>
     b = (\<exists>k. first_poll_running env reports_cleared (n_run w) (n_poll w) n k
             \<and> reports_success (poll_resp env k))"
proof (induction n arbitrary: w)
  case 0
  then show ?case by (simp add: first_poll_running_def first_poll_def)
next
  case (Suc n)
  consider (stop) "\<not> running_read env (n_run w)"
    | (cleared) "running_read env (n_run w)" "reports_cleared (poll_resp env (n_poll w))"
    | (continue) "running_read env (n_run w)" "\<not> reports_cleared (poll_resp env (n_poll w))"
    by blast
  then show ?case
  proof cases
    case stop
    from completion_loop_stop[OF stop, of ch n] Suc.prems have "\<not> b" by simp
    with first_poll_running_stopped[OF stop] show ?thesis by blast
  next
    case cleared
    from completion_loop_cleared[OF cleared, of ch n] Suc.prems
    have "b = reports_success (poll_resp env (n_poll w))" by auto
    moreover have "first_poll_running env reports_cleared (n_run w) (n_poll w) (Suc n) k
        = (k = n_poll w)" for k
      using first_poll_running_here[where P=reports_cleared and env=env and r="n_run w"
          and p="n_poll w" and n=n and i=k] cleared
      by simp
    ultimately show ?thesis by simp
  next
    case continue
    from completion_loop_continue[OF continue, of ch n] obtain w1 where
      w1: "completion_loop env ch (Suc n) w = completion_loop env ch n w1"
          "n_poll w1 = Suc (n_poll w)" "n_run w1 = Suc (n_run w)"
      by blast
    with Suc.prems have "completion_loop env ch n w1 = (b, w')" by simp
    moreover have "first_poll_running env reports_cleared (n_run w) (n_poll w) (Suc n) k
        = first_poll_running env reports_cleared (Suc (n_run w)) (Suc (n_poll w)) n k" for k
      using first_poll_running_shift[where P=reports_cleared and env=env and r="n_run w"
          and p="n_poll w" and n=n and i=k] continue
      by simp
    ultimately show ?thesis
      using Suc.IH[of w1] w1(2,3) by simp
  qed
qed

lemma settles_while_running_split:
  "settles_while_running env r p =
     (\<exists>i k. first_poll_running env reports_active r p 10 i
          \<and> first_poll_running env reports_cleared (r + (Suc i - p)) (Suc i) 120 k
          \<and> reports_success (poll_resp env k))"
proof
  assume "settles_while_running env r p"
  then obtain i k where ik: "first_poll env reports_active p 10 i"
      "first_poll env reports_cleared (Suc i) 120 k" "reports_success (poll_resp env k)"
      and run: "\<forall>j. j \<le> k - p \<longrightarrow> running_read env (r + j)"
    unfolding settles_while_running_def by blast
  from ik(1,2) have le: "p \<le> i" "Suc i \<le> k"
    by (simp_all add: first_poll_def)
  have "running_read env (r + j)" if "j \<le> i - p" for j
    using that le run by simp
  moreover have "running_read env (r + (Suc i - p) + j)" if "j \<le> k - Suc i" for j
  proof -
    from that le have "(Suc i - p) + j \<le> k - p" by simp
    with run have "running_read env (r + ((Suc i - p) + j))" by blast
    then show ?thesis by (simp add: add.assoc)
  qed
  ultimately have "first_poll_running env reports_active r p 10 i"
    "first_poll_running env reports_cleared (r + (Suc i - p)) (Suc i) 120 k"
    using ik(1,2) by (simp_all add: first_poll_running_def)
  with ik(3) show "\<exists>i k. first_poll_running env reports_active r p 10 i
          \<and> first_poll_running env reports_cleared (r + (Suc i - p)) (Suc i) 120 k
          \<and> reports_success (poll_resp env k)"
    by blast
next
  assume "\<exists>i k. first_poll_running env reports_active r p 10 i
          \<and> first_poll_running env reports_cleared (r + (Suc i - p)) (Suc i) 120 k
          \<and> reports_success (poll_resp env k)"
  then obtain i k where ik: "first_poll env reports_active p 10 i"
      "first_poll env reports_cleared (Suc i) 120 k" "reports_success (poll_resp env k)"
      and r1: "\<forall>j. j \<le> i - p \<longrightarrow> running_read env (r + j)"
      and r2: "\<forall>j. j \<le> k - Suc i \<longrightarrow> running_read env (r + (Suc i - p) + j)"
    unfolding first_poll_running_def by blast
  from ik(1,2) have le: "p \<le> i" "Suc i \<le> k"
    by (simp_all add: first_poll_def)
  have "running_read env (r + j)" if "j \<le> k - p" for j
  proof (cases "j \<le> i - p")
    case True
    with r1 show ?thesis by blast
  next
    case False
    define j' where "j' = j - (Suc i - p)"
    from False le have j: "j = (Suc i - p) + j'" by (simp add: j'_def)
    from that le j have "j' \<le> k - Suc i" by simp
    with r2 have "running_read env (r + (Suc i - p) + j')" by blast
    with j show ?thesis by (simp add: add.assoc)
  qed
  with ik show "settles_while_running env r p"
    unfolding settles_while_running_def by blast
qed

lemma attempt_result:
  assumes "perform_wavelength_attempt env ch wl w = ((success, duration), w')"
  shows "success = (put_resp env (n_put w) \<and> settles_while_running env (n_run w) (n_poll w))"
    and "duration = fsub (clock env (Suc (n_clock w))) (clock env (n_clock w))"
    and "(\<forall>i. \<not> first_poll_running env reports_active (n_run w) (n_poll w) 10 i)
           \<Longrightarrow> \<not> success \<and> n_poll w' \<le> n_poll w + 10"
proof -
  define w2 where "w2 = snd (put_wavelength env (emit (CommandSent (PutWavelength ch wl)) (snd (time_time env w))))"
  have w2: "n_clock w2 = Suc (n_clock w)" "n_poll w2 = n_poll w" "n_run w2 = n_run w"
    by (simp_all add: w2_def io_defs)
  obtain a w3 where a: "activation_loop env ch 10 w2 = (a, w3)" by fastforce
  obtain s w4 where s: "completion_loop env ch 120 w3 = (s, w4)" by fastforce
  from activation_loop_frame[OF a] have f3: "n_clock w3 = n_clock w2" "n_poll w3 \<le> n_poll w2 + 10"
    by (simp_all add: polls_only_def)
  from completion_loop_frame[OF s] have f4: "n_clock w4 = n_clock w3"
    by (simp add: polls_only_def)
  have res: "success = (put_resp env (n_put w) \<and> a \<and> s)"
    and dur: "duration = fsub (clock env (Suc (n_clock w))) (clock env (n_clock w))"
    and polls: "\<not> a \<Longrightarrow> n_poll w' \<le> n_poll w + 10"
    using assms a s f3 f4 w2
    by (auto simp: perform_wavelength_attempt_def w2_def io_defs split: prod.splits if_splits)
  note ea = activation_loop_exact[OF a, unfolded w2]
  have as: "(a \<and> s) = settles_while_running env (n_run w) (n_poll w)"
  proof (cases a)
    case False
    with ea have "\<forall>i. \<not> first_poll_running env reports_active (n_run w) (n_poll w) 10 i"
      by blast
    with False show ?thesis
      by (simp add: settles_while_running_split)
  next
    case True
    with ea obtain i where
      i: "first_poll_running env reports_active (n_run w) (n_poll w) 10 i"
         "n_poll w3 = Suc i" "n_run w3 = n_run w + (Suc i - n_poll w)"
      by blast
    have uniq: "i' = i" if "first_poll_running env reports_active (n_run w) (n_poll w) 10 i'" for i'
      using that i(1) first_poll_unique unfolding first_poll_running_def by blast
    from completion_loop_exact[OF s, unfolded i(2,3)] have
      "s = (\<exists>k. first_poll_running env reports_cleared (n_run w + (Suc i - n_poll w)) (Suc i) 120 k
               \<and> reports_success (poll_resp env k))" .
    with True i(1) uniq show ?thesis
      unfolding settles_while_running_split by blast
  qed
  show "success = (put_resp env (n_put w) \<and> settles_while_running env (n_run w) (n_poll w))"
    using res as by blast
  show "duration = fsub (clock env (Suc (n_clock w))) (clock env (n_clock w))"
    by (rule dur)
  show "\<not> success \<and> n_poll w' \<le> n_poll w + 10"
    if "\<forall>i. \<not> first_poll_running env reports_active (n_run w) (n_poll w) 10 i"
  proof -
    from that ea have "\<not> a" by blast
    with res polls show ?thesis by simp
  qed
qed

lemma settles_always_running:
  assumes "\<forall>k. running_read env k"
  shows "settles_while_running env r p = settles_successfully env p"
  using assms by (simp add: settles_while_running_def settles_successfully_def)

text \<open>
  Claim C1, as stated, fails when a stop is requested during the attempt: each loop
  begins with \<open>if not self.running: break\<close>.  The set command is answered, the device
  reports the setting active at the first poll and cleared with \<open>"Success"\<close> at the
  second, well within both budgets, but the worker is stopped after the first poll and the
  attempt returns \<open>success = False\<close>.
\<close>

theorem attempt_stopped_counterexample:
  "put_resp stopped_env 0
   \<and> settles_successfully stopped_env 0
   \<and> \<not> fst (fst (perform_wavelength_attempt stopped_env 1 800 world0))"
proof -
  have "first_poll stopped_env reports_active 0 10 0"
    by (simp add: first_poll_def stopped_env_def prompt_env_def reports_active_def reply_def)
  moreover have "first_poll stopped_env reports_cleared (Suc 0) 120 1"
    by (simp add: first_poll_def stopped_env_def prompt_env_def reports_cleared_def reply_def)
  moreover have "reports_success (poll_resp stopped_env 1)"
    by (simp add: stopped_env_def prompt_env_def reports_success_def reply_def)
  ultimately have st: "settles_successfully stopped_env 0"
    unfolding settles_successfully_def by blast
  have "\<not> settles_while_running stopped_env 0 0"
  proof
    assume "settles_while_running stopped_env 0 0"
    then obtain i k where "first_poll stopped_env reports_cleared (Suc i) 120 k"
      "\<forall>j. j \<le> k - 0 \<longrightarrow> running_read stopped_env (0 + j)"
      unfolding settles_while_running_def by blast
    then have "1 \<le> k" "\<forall>j. j \<le> k \<longrightarrow> running_read stopped_env j"
      by (simp_all add: first_poll_def)
    then have "running_read stopped_env 1" by blast
    then show False by (simp add: stopped_env_def)
  qed
  moreover obtain s d w' where
    e: "perform_wavelength_attempt stopped_env 1 800 world0 = ((s, d), w')"
    by (metis surj_pair)
  moreover have "n_run world0 = 0" "n_poll world0 = 0"
    by (simp_all add: world0_def)
  ultimately have "\<not> s"
    using attempt_result(1)[OF e] by simp
  with e have "\<not> fst (fst (perform_wavelength_attempt stopped_env 1 800 world0))"
    by simp
  moreover have "put_resp stopped_env 0"
    by (simp add: stopped_env_def prompt_env_def)
  ultimately show ?thesis using st by blast
qed

text \<open>
  Claim C1, amended.  One attempt returns \<open>success = True\<close> if and only if the set command
  is answered and, with the worker found running before each poll made, within the budget
  of 10 polls the is-setting-active flag becomes true and, within the budget of 120 further
  polls, it clears with \<open>WavelengthSettingState = "Success"\<close>.  In every other case (no
  answer to the set command, no activation within the 10 polls, the 120 polls used up, a
  clear with any other state, a stop before the clearing poll) it returns
  \<open>success = False\<close>.  In every case the returned duration is the float difference of the
  clock readings on return and before the set command.  If the flag does not become true
  within the 10 polls the attempt fails after at most these 10 polls: the completion phase
  is not entered.  As long as no stop is requested the condition on the worker is void.
\<close>

theorem attempt_success_iff:
  assumes "perform_wavelength_attempt env ch wl w = ((success, duration), w')"
  shows "success = (put_resp env (n_put w) \<and> settles_while_running env (n_run w) (n_poll w))
       \<and> duration = fsub (clock env (Suc (n_clock w))) (clock env (n_clock w))
       \<and> ((\<forall>i. \<not> first_poll_running env reports_active (n_run w) (n_poll w) 10 i) \<longrightarrow>
            \<not> success \<and> n_poll w' \<le> n_poll w + 10)
       \<and> ((\<forall>k. running_read env k) \<longrightarrow>
            success = (put_resp env (n_put w) \<and> settles_successfully env (n_poll w)))"
  using attempt_result[OF assms] settles_always_running[of env "n_run w" "n_poll w"]
  by blast

theorem attempt_success_iff_witness:
  "fst (fst (perform_wavelength_attempt prompt_env 1 800 world0))
   \<and> settles_successfully prompt_env 0
   \<and> snd (fst (perform_wavelength_attempt prompt_env 1 800 world0)) = 1
   \<and> \<not> fst (fst (perform_wavelength_attempt lossy_env 1 800 world0))
   \<and> n_poll (snd (perform_wavelength_attempt lossy_env 1 800 world0)) \<le> 10"
proof -
  have run: "\<forall>k. running_read prompt_env k"
    by (simp add: prompt_env_def)
  have "first_poll prompt_env reports_active 0 10 0"
    by (simp add: first_poll_def prompt_env_def reports_active_def reply_def)
  moreover have "first_poll prompt_env reports_cleared (Suc 0) 120 1"
    by (simp add: first_poll_def prompt_env_def reports_cleared_def reply_def)
  moreover have "reports_success (poll_resp prompt_env 1)"
    by (simp add: prompt_env_def reports_success_def reply_def)
  ultimately have st: "settles_successfully prompt_env 0"
    unfolding settles_successfully_def by blast
  have p0: "put_resp prompt_env (n_put world0)"
    by (simp add: prompt_env_def)
  have n0: "n_poll world0 = 0" "n_run world0 = 0"
    by (simp_all add: world0_def)
  have c0: "fsub (clock prompt_env (Suc (n_clock world0))) (clock prompt_env (n_clock world0)) = 1"
    by (simp add: prompt_env_def world0_def fsub_def)
  obtain s d w' where
    e: "perform_wavelength_attempt prompt_env 1 800 world0 = ((s, d), w')"
    by (metis surj_pair)
  from attempt_success_iff[OF e] run have
    "s = (put_resp prompt_env (n_put world0) \<and> settles_successfully prompt_env (n_poll world0))"
    "d = fsub (clock prompt_env (Suc (n_clock world0))) (clock prompt_env (n_clock world0))"
    by blast+
  with p0 st n0 c0 have "s \<and> d = 1"
    by simp
  with e have prompt:
    "fst (fst (perform_wavelength_attempt prompt_env 1 800 world0))
     \<and> snd (fst (perform_wavelength_attempt prompt_env 1 800 world0)) = 1"
    by simp
  have none: "\<forall>i. \<not> first_poll_running lossy_env reports_active (n_run world0) (n_poll world0) 10 i"
    by (simp add: first_poll_running_def first_poll_def lossy_env_def reports_active_def
        world0_def)
  obtain s2 d2 w2 where
    e2: "perform_wavelength_attempt lossy_env 1 800 world0 = ((s2, d2), w2)"
    by (metis surj_pair)
  from attempt_success_iff[OF e2] none have "\<not> s2 \<and> n_poll w2 \<le> n_poll world0 + 10"
    by blast
  with n0 have "\<not> s2 \<and> n_poll w2 \<le> 10"
    by simp
  with e2 have
    "\<not> fst (fst (perform_wavelength_attempt lossy_env 1 800 world0))
     \<and> n_poll (snd (perform_wavelength_attempt lossy_env 1 800 world0)) \<le> 10"
    by simp
  with prompt st show ?thesis by blast
qed


text \<open>
  Claim C2, as stated, fails: the activation loop is a \<open>for\<close> loop over \<open>range(10)\<close>, and
  \<open>continue\<close> after a failed poll moves on to the next of the ten iterations.  Ten polls
  without a response, none of them a successful poll, use up the budget: the phase times
  out although the device reports the setting active at the very next poll.
\<close>

theorem activation_failed_polls_counterexample:
  "map (poll_resp lossy_env) [0..<10] = replicate 10 None
   \<and> reports_active (poll_resp lossy_env 10)
   \<and> \<not> fst (activation_loop lossy_env 1 10 world0)
   \<and> \<not> fst (fst (perform_wavelength_attempt lossy_env 1 800 world0))"
proof -
  have run: "\<forall>k. running_read lossy_env k"
    by (simp add: lossy_env_def prompt_env_def)
  have none: "\<nexists>i. first_poll lossy_env reports_active 0 10 i"
    by (simp add: first_poll_def lossy_env_def reports_active_def)
  have "map (poll_resp lossy_env) [0..<10] = replicate 10 None"
    by (simp add: lossy_env_def eval_nat_numeral)
  moreover have "reports_active (poll_resp lossy_env 10)"
    by (simp add: lossy_env_def reports_active_def reply_def)
  moreover have a: "\<not> fst (activation_loop lossy_env 1 10 world0)"
    using activation_loop_iff[OF run, of 1 10 world0] none
    by (simp add: world0_def)
  moreover have "\<not> fst (fst (perform_wavelength_attempt lossy_env 1 800 world0))"
  proof -
    have "n_poll (snd (put_wavelength lossy_env (emit (CommandSent (PutWavelength 1 800))
            (snd (time_time lossy_env world0))))) = 0"
      by (simp add: io_defs world0_def)
    with activation_loop_iff[OF run, of 1 10
        "snd (put_wavelength lossy_env (emit (CommandSent (PutWavelength 1 800))
            (snd (time_time lossy_env world0))))"] none
    have "\<not> fst (activation_loop lossy_env 1 10
        (snd (put_wavelength lossy_env (emit (CommandSent (PutWavelength 1 800))
            (snd (time_time lossy_env world0))))))"
      by simp
    then show ?thesis
      by (simp add: perform_wavelength_attempt_def case_prod_beta)
  qed
  ultimately show ?thesis by blast
qed

text \<open>
  Claim C2, amended.  Every poll of the activation phase, answered or not, uses one of the
  budgeted iterations.  A poll that gets no response signals connection-loss and waits
  0.5 s, and the loop goes on with one iteration fewer.  The phase makes at most as many
  polls as its budget (10 in an attempt); as long as the worker is not stopped, it ends
  with the setting active exactly when one of these polls reports it active, and times
  out otherwise.
\<close>

theorem activation_budget:
  "(running_read env (n_run w) \<and> poll_resp env (n_poll w) = None \<longrightarrow>
      (\<exists>w1. activation_loop env ch (Suc n) w = activation_loop env ch n w1
          \<and> n_poll w1 = Suc (n_poll w)
          \<and> events w1 = events w @ [CommandSent (GetStatus ch), ConnectionLost, Sleep (1/2)]))
   \<and> n_poll (snd (activation_loop env ch n w)) \<le> n_poll w + n
   \<and> ((\<forall>k. running_read env k) \<longrightarrow>
        fst (activation_loop env ch n w) = (\<exists>i. first_poll env reports_active (n_poll w) n i))"
proof (intro conjI impI)
  assume h: "running_read env (n_run w) \<and> poll_resp env (n_poll w) = None"
  let ?w1 = "sleep (1/2) (emit ConnectionLost
      (snd (get_status env (emit (CommandSent (GetStatus ch)) (snd (read_running env w))))))"
  have "activation_loop env ch (Suc n) w = activation_loop env ch n ?w1"
    using h by (simp add: activation_loop.simps(2) io_defs)
  moreover have "n_poll ?w1 = Suc (n_poll w)"
    by (simp add: io_defs)
  moreover have "events ?w1 = events w @ [CommandSent (GetStatus ch), ConnectionLost, Sleep (1/2)]"
    by (simp add: io_defs)
  ultimately show "\<exists>w1. activation_loop env ch (Suc n) w = activation_loop env ch n w1
          \<and> n_poll w1 = Suc (n_poll w)
          \<and> events w1 = events w @ [CommandSent (GetStatus ch), ConnectionLost, Sleep (1/2)]"
    by blast
next
  obtain b w' where "activation_loop env ch n w = (b, w')" by fastforce
  with activation_loop_frame[OF this] show "n_poll (snd (activation_loop env ch n w)) \<le> n_poll w + n"
    by simp
next
  assume "\<forall>k. running_read env k"
  then show "fst (activation_loop env ch n w) = (\<exists>i. first_poll env reports_active (n_poll w) n i)"
    by (rule activation_loop_iff)
qed

theorem activation_budget_witness:
  "n_poll (snd (activation_loop lossy_env 1 10 world0)) \<le> 10
   \<and> \<not> fst (activation_loop lossy_env 1 10 world0)
   \<and> (\<exists>w1. activation_loop lossy_env 1 (Suc 10) world0 = activation_loop lossy_env 1 10 w1
          \<and> n_poll w1 = 1
          \<and> events w1 = [CommandSent (GetStatus 1), ConnectionLost, Sleep (1/2)])"
proof -
  have run: "\<forall>k. running_read lossy_env k"
    by (simp add: lossy_env_def prompt_env_def)
  have none: "\<nexists>i. first_poll lossy_env reports_active 0 10 i"
    by (simp add: first_poll_def lossy_env_def reports_active_def)
  have first: "running_read lossy_env (n_run world0) \<and> poll_resp lossy_env (n_poll world0) = None"
    by (simp add: lossy_env_def prompt_env_def world0_def)
  from activation_budget[of lossy_env world0 1 10] run none first show ?thesis
    by (simp add: world0_def)
qed

section \<open>Properties of the run loop\<close>

lemma check_connection_reachable:
  "check_connection env w = (reachable env (n_conn w), w\<lparr>n_conn := Suc (n_conn w)\<rparr>)"
  by (simp add: check_connection_def reachable_def)

lemma emitted_outcomes_append:
  "emitted_outcomes (xs @ ys) = emitted_outcomes xs @ emitted_outcomes ys"
  by (induction xs rule: emitted_outcomes.induct) simp_all

lemma commanded_wavelengths_append:
  "commanded_wavelengths (xs @ ys) = commanded_wavelengths xs @ commanded_wavelengths ys"
  by (induction xs rule: commanded_wavelengths.induct) simp_all

lemma polling_events_silent:
  assumes "set es \<subseteq> {CommandSent (GetStatus ch), ConnectionLost, Sleep (1/2), Sleep 1}"
  shows "emitted_outcomes es = [] \<and> commanded_wavelengths es = []"
  using assms by (induction es) auto

lemma run_cycle_exit:
  assumes "\<not> (running_read env (n_run w) \<and> cycles_left wk attempts)"
  shows "run_cycle env wk attempts w = Inr (False, wk, attempts, w\<lparr>n_run := Suc (n_run w)\<rparr>)"
  using assms by (auto simp: run_cycle_def cycles_left_def read_running_def)

lemma run_cycle_unreachable:
  assumes "running_read env (n_run w)" "cycles_left wk attempts" "\<not> reachable env (n_conn w)"
  shows "run_cycle env wk attempts w =
     Inr (True, wk, attempts,
          w\<lparr>n_run := Suc (n_run w), n_conn := Suc (n_conn w),
            events := events w @ [ConnectionLost, Sleep 2]\<rparr>)"
  using assms
  by (simp add: run_cycle_def cycles_left_def read_running_def check_connection_reachable
      emit_def sleep_def)

lemma record_attempt_effect:
  assumes "record_attempt env wk attempts wl success duration w = (wk', attempts', w')"
  shows "attempts' = attempts + 1
     \<and> (\<exists>t. wk' = wk\<lparr>test_results := test_results wk @
           [\<lparr>timestamp = t, wavelength = wl, wl_success = success, wl_duration = duration\<rparr>]\<rparr>)
     \<and> events w' = events w @ [UpdateStatus success duration wl,
           ProgressUpdate (attempts + 1) (case w_cycles wk of None \<Rightarrow> 0 | Some c \<Rightarrow> c),
           Sleep (fadd (w_wait_time wk) 3)]
     \<and> fail_log w' = (if success then fail_log w
          else fail_log w @ [LogFailed (clock env (Suc (n_clock w))) wl duration])
     \<and> n_conn w' = n_conn w \<and> n_run w' = n_run w \<and> n_put w' = n_put w
     \<and> n_poll w' = n_poll w \<and> n_power w' = n_power w \<and> n_rand w' = n_rand w"
  using assms
  by (cases success) (auto simp: record_attempt_def log_failure_def io_defs)

lemma run_cycle_attempt:
  assumes go: "running_read env (n_run w)" "cycles_left wk attempts" "reachable env (n_conn w)"
    and rng: "range_min wk = Some lo" "range_max wk = Some hi"
    and dev: "device_min wk = Some dlo" "device_max wk = Some dhi"
  shows "\<exists>t s d w' es.
     run_cycle env wk attempts w =
       Inr (True,
            wk\<lparr>test_results := test_results wk @
               [\<lparr>timestamp = t,
                 wavelength = clamp_to_device
                    (py_round1 (fadd lo (fmul (fsub hi lo) (random_unit env (n_rand w))))) dlo dhi,
                 wl_success = s, wl_duration = d\<rparr>]\<rparr>,
            attempts + 1, w')
     \<and> events w' = events w @
          CurrentWavelength
            (clamp_to_device (py_round1 (fadd lo (fmul (fsub hi lo) (random_unit env (n_rand w))))) dlo dhi)
          # CommandSent (PutWavelength (channel wk)
            (clamp_to_device (py_round1 (fadd lo (fmul (fsub hi lo) (random_unit env (n_rand w))))) dlo dhi))
          # es @
          [UpdateStatus s d
             (clamp_to_device (py_round1 (fadd lo (fmul (fsub hi lo) (random_unit env (n_rand w))))) dlo dhi),
           ProgressUpdate (attempts + 1) (case w_cycles wk of None \<Rightarrow> 0 | Some c \<Rightarrow> c),
           Sleep (fadd (w_wait_time wk) 3)]
     \<and> set es \<subseteq> {CommandSent (GetStatus (channel wk)), ConnectionLost, Sleep (1/2), Sleep 1}
     \<and> n_conn w' = Suc (n_conn w) \<and> n_run w \<le> n_run w'"
proof -
  define wl where
    "wl = clamp_to_device (py_round1 (fadd lo (fmul (fsub hi lo) (random_unit env (n_rand w))))) dlo dhi"
  define w3 where
    "w3 = emit (CurrentWavelength wl)
            (snd (uniform env lo hi (snd (check_connection env (snd (read_running env w))))))"
  have w3: "events w3 = events w @ [CurrentWavelength wl]" "n_conn w3 = Suc (n_conn w)"
    "n_run w3 = Suc (n_run w)"
    by (simp_all add: w3_def uniform_def io_defs)
  obtain s d w4 where att: "perform_wavelength_attempt env (channel wk) wl w3 = ((s, d), w4)"
    by (metis surj_pair)
  obtain wk' a' w' where rec: "record_attempt env wk attempts wl s d w4 = (wk', a', w')"
    by (metis surj_pair)
  from perform_wavelength_attempt_effect[OF att] obtain es where
    es: "events w4 = events w3 @ CommandSent (PutWavelength (channel wk) wl) # es"
        "set es \<subseteq> {CommandSent (GetStatus (channel wk)), ConnectionLost, Sleep (1/2), Sleep 1}"
    and f4: "n_conn w4 = n_conn w3" "n_run w3 \<le> n_run w4"
    unfolding attempt_effect_def by blast
  from record_attempt_effect[OF rec] obtain t where
    r: "a' = attempts + 1"
       "wk' = wk\<lparr>test_results := test_results wk @
           [\<lparr>timestamp = t, wavelength = wl, wl_success = s, wl_duration = d\<rparr>]\<rparr>"
       "events w' = events w4 @ [UpdateStatus s d wl,
           ProgressUpdate (attempts + 1) (case w_cycles wk of None \<Rightarrow> 0 | Some c \<Rightarrow> c),
           Sleep (fadd (w_wait_time wk) 3)]"
       "n_conn w' = n_conn w4" "n_run w' = n_run w4"
    by blast
  have "run_cycle env wk attempts w = Inr (True, wk', a', w')"
    using go rng dev att rec
    by (simp add: run_cycle_def cycles_left_def read_running_def check_connection_reachable
        uniform_def w3_def wl_def Let_def)
  with r es f4 w3 show ?thesis
    unfolding wl_def[symmetric] by auto
qed

section \<open>Claims about the run loop\<close>

text \<open>
  Claim C6.  Whenever the reachability check before a cycle fails, the pass through the
  loop signals connection loss, sleeps 2 s and goes back to the loop condition with the
  worker unchanged: no outcome is appended to \<open>test_results\<close>, \<open>attempts\<close> does not
  advance and nothing is written to the failure log; nothing is sent to the device either.
  This holds for any number \<open>k\<close> of failed checks in a row.
\<close>

theorem connection_loss_frame:
  assumes "\<forall>j<k. running_read env (n_run w + j) \<and> \<not> reachable env (n_conn w + j)"
    and "cycles_left wk attempts"
  shows "\<exists>w'. run_cycles env k wk attempts w = Inr (True, wk, attempts, w')
     \<and> events w' = events w @ concat (replicate k [ConnectionLost, Sleep 2])
     \<and> emitted_outcomes (events w') = emitted_outcomes (events w)
     \<and> fail_log w' = fail_log w
     \<and> n_conn w' = n_conn w + k \<and> n_put w' = n_put w \<and> n_poll w' = n_poll w
     \<and> n_power w' = n_power w"
  using assms
proof (induction k arbitrary: w)
  case 0
  then show ?case by simp
next
  case (Suc k)
  from Suc.prems(1) have now: "running_read env (n_run w)" "\<not> reachable env (n_conn w)"
    by force+
  define w1 where "w1 = w\<lparr>n_run := Suc (n_run w), n_conn := Suc (n_conn w),
            events := events w @ [ConnectionLost, Sleep 2]\<rparr>"
  have step: "run_cycle env wk attempts w = Inr (True, wk, attempts, w1)"
    unfolding w1_def using now(1) Suc.prems(2) now(2) by (rule run_cycle_unreachable)
  have "\<forall>j<k. running_read env (n_run w1 + j) \<and> \<not> reachable env (n_conn w1 + j)"
  proof (intro allI impI)
    fix j assume "j < k"
    then have "Suc j < Suc k" by simp
    with Suc.prems(1) have "running_read env (n_run w + Suc j) \<and> \<not> reachable env (n_conn w + Suc j)"
      by blast
    then show "running_read env (n_run w1 + j) \<and> \<not> reachable env (n_conn w1 + j)"
      by (simp add: w1_def)
  qed
  from Suc.IH[OF this Suc.prems(2)] obtain w' where
    w': "run_cycles env k wk attempts w1 = Inr (True, wk, attempts, w')"
        "events w' = events w1 @ concat (replicate k [ConnectionLost, Sleep 2])"
        "fail_log w' = fail_log w1" "n_conn w' = n_conn w1 + k" "n_put w' = n_put w1"
        "n_poll w' = n_poll w1" "n_power w' = n_power w1"
    by blast
  have ev: "events w' = events w @ concat (replicate (Suc k) [ConnectionLost, Sleep 2])"
    using w'(2) by (simp add: w1_def)
  have "emitted_outcomes (concat (replicate n [ConnectionLost, Sleep 2])) = []" for n
    by (induction n) simp_all
  then have "emitted_outcomes (events w') = emitted_outcomes (events w)"
    by (simp add: ev emitted_outcomes_append)
  moreover have "run_cycles env (Suc k) wk attempts w = Inr (True, wk, attempts, w')"
    using step w'(1) by simp
  ultimately show ?case
    using ev w'(3-7) by (simp add: w1_def)
qed

theorem connection_loss_frame_witness:
  "\<exists>w'. run_cycles offline_env 3 demo_worker 0 world0 = Inr (True, demo_worker, 0, w')
     \<and> events w' = [ConnectionLost, Sleep 2, ConnectionLost, Sleep 2, ConnectionLost, Sleep 2]
     \<and> fail_log w' = [] \<and> n_put w' = 0"
proof -
  have "\<forall>j<3. running_read offline_env (n_run world0 + j) \<and> \<not> reachable offline_env (n_conn world0 + j)"
    by (simp add: offline_env_def prompt_env_def reachable_def)
  moreover have "cycles_left demo_worker 0"
    by (simp add: cycles_left_def demo_worker_def TestWorker_init_def demo_params_def
        init_cycles_def split: prod.splits)
  ultimately obtain w' where
    w': "run_cycles offline_env 3 demo_worker 0 world0 = Inr (True, demo_worker, 0, w')"
        "events w' = events world0 @ concat (replicate 3 [ConnectionLost, Sleep 2])"
        "fail_log w' = fail_log world0" "n_put w' = n_put world0"
    using connection_loss_frame[of 3 offline_env world0 demo_worker 0] by blast
  have "concat (replicate 3 [ConnectionLost, Sleep 2])
      = [ConnectionLost, Sleep 2, ConnectionLost, Sleep 2, ConnectionLost, Sleep 2]"
    by (simp add: numeral_3_eq_3)
  with w' show ?thesis
    by (intro exI[of _ w']) (simp add: world0_def)
qed

lemma TestWorker_init_known:
  "\<exists>lo hi. TestWorker_init ch prm (Some dlo, Some dhi) =
     \<lparr> channel = ch, w_wait_time = wait_time prm, range_min = Some lo, range_max = Some hi,
       w_cycles = init_cycles (cycles prm), w_measure_power_curve = measure_power_curve prm,
       test_results = [], power_curve_data = [],
       device_min = Some dlo, device_max = Some dhi \<rparr>"
  by (cases "test_min prm"; cases "test_max prm")
     (auto simp: TestWorker_init_def resolve_range_def)

lemma run_cycles_all_attempts:
  assumes run: "\<forall>j. running_read env j" and conn: "\<forall>j. reachable env j"
  shows "range_min wk = Some lo \<Longrightarrow> range_max wk = Some hi \<Longrightarrow>
     device_min wk = Some dlo \<Longrightarrow> device_max wk = Some dhi \<Longrightarrow>
     (case w_cycles wk of None \<Rightarrow> True | Some c \<Rightarrow> a + int k \<le> c) \<Longrightarrow>
     \<exists>rs w'. run_cycles env k wk a w =
                Inr (True, wk\<lparr>test_results := test_results wk @ rs\<rparr>, a + int k, w')
        \<and> length rs = k
        \<and> emitted_outcomes (events w') = emitted_outcomes (events w) @ map outcome_signal rs"
proof (induction k arbitrary: wk a w)
  case 0
  have "run_cycles env 0 wk a w = Inr (True, wk\<lparr>test_results := test_results wk @ []\<rparr>, a + int 0, w)"
    by simp
  then show ?case by force
next
  case (Suc k)
  from Suc.prems(5) have left: "cycles_left wk a"
    by (auto simp: cycles_left_def split: option.splits)
  from run conn have now: "running_read env (n_run w)" "reachable env (n_conn w)"
    by simp_all
  from run_cycle_attempt[OF now(1) left now(2) Suc.prems(1-4)] obtain t s d w1 es wl where
    step: "run_cycle env wk a w =
       Inr (True, wk\<lparr>test_results := test_results wk @
               [\<lparr>timestamp = t, wavelength = wl, wl_success = s, wl_duration = d\<rparr>]\<rparr>, a + 1, w1)"
    and ev: "events w1 = events w @ CurrentWavelength wl
          # CommandSent (PutWavelength (channel wk) wl) # es @
          [UpdateStatus s d wl,
           ProgressUpdate (a + 1) (case w_cycles wk of None \<Rightarrow> 0 | Some c \<Rightarrow> c),
           Sleep (fadd (w_wait_time wk) 3)]"
    and es: "set es \<subseteq> {CommandSent (GetStatus (channel wk)), ConnectionLost, Sleep (1/2), Sleep 1}"
    by blast
  define r where "r = \<lparr>timestamp = t, wavelength = wl, wl_success = s, wl_duration = d\<rparr>"
  define wk1 where "wk1 = wk\<lparr>test_results := test_results wk @ [r]\<rparr>"
  have em1: "emitted_outcomes (events w1) = emitted_outcomes (events w) @ [outcome_signal r]"
    using polling_events_silent[OF es]
    by (simp add: ev emitted_outcomes_append outcome_signal_def r_def)
  have pre: "range_min wk1 = Some lo" "range_max wk1 = Some hi"
    "device_min wk1 = Some dlo" "device_max wk1 = Some dhi"
    "(case w_cycles wk1 of None \<Rightarrow> True | Some c \<Rightarrow> (a + 1) + int k \<le> c)"
    using Suc.prems by (simp_all add: wk1_def split: option.splits)
  from Suc.IH[OF pre] obtain rs w' where
    rest: "run_cycles env k wk1 (a + 1) w1 =
             Inr (True, wk1\<lparr>test_results := test_results wk1 @ rs\<rparr>, a + 1 + int k, w')"
      "length rs = k"
      "emitted_outcomes (events w') = emitted_outcomes (events w1) @ map outcome_signal rs"
    by blast
  have "run_cycles env (Suc k) wk a w =
      Inr (True, wk\<lparr>test_results := test_results wk @ (r # rs)\<rparr>, a + int (Suc k), w')"
    using step rest(1) by (simp add: wk1_def r_def add.assoc)
  moreover have "length (r # rs) = Suc k"
    using rest(2) by simp
  moreover have "emitted_outcomes (events w') =
      emitted_outcomes (events w) @ map outcome_signal (r # rs)"
    using rest(3) em1 by simp
  ultimately show ?case by blast
qed

lemma run_loop_after_cycles:
  "run_cycles env k wk a w = Inr (True, wk1, a1, w1) \<Longrightarrow>
     run_loop env (k + m) wk a w = run_loop env m wk1 a1 w1"
proof (induction k arbitrary: wk a w)
  case 0
  then show ?case by simp
next
  case (Suc k)
  then show ?case
    by (auto split: sum.splits prod.splits if_splits)
qed

text \<open>
  Claim C9.  Take a worker built by the constructor for a known device range, a device
  that passes every reachability check and no stop request.  With a cycle count \<open>N > 0\<close>
  the loop of \<open>run\<close> is left after \<open>N\<close> passes with \<open>attempts = N\<close>, exactly \<open>N\<close>
  outcomes recorded in \<open>test_results\<close> and the same \<open>N\<close> outcomes emitted, in order.
  With a cycle count of \<open>None\<close> or \<open>\<le> 0\<close> the run is unbounded: the loop is never left,
  and after \<open>k\<close> passes it has recorded and emitted \<open>k\<close> outcomes, for every \<open>k\<close>.
\<close>

theorem run_records_all_cycles:
  assumes "\<forall>j. running_read env j" and "\<forall>j. reachable env j"
    and "wk = TestWorker_init ch prm (Some dlo, Some dhi)"
  shows "(case cycles prm of
            None \<Rightarrow> w_cycles wk = None
          | Some n \<Rightarrow> if n \<le> 0 then w_cycles wk = None else w_cycles wk = Some n)
     \<and> (case w_cycles wk of
           Some N \<Rightarrow>
             (\<exists>wk' w'. run_loop env (Suc (nat N)) wk 0 w = Some (Inr (wk', N, w'))
                 \<and> length (test_results wk') = nat N
                 \<and> emitted_outcomes (events w') =
                     emitted_outcomes (events w) @ map outcome_signal (test_results wk'))
         | None \<Rightarrow>
             (\<forall>k. run_loop env k wk 0 w = None
                 \<and> (\<exists>wk' w'. run_cycles env k wk 0 w = Inr (True, wk', int k, w')
                       \<and> length (test_results wk') = k
                       \<and> emitted_outcomes (events w') =
                           emitted_outcomes (events w) @ map outcome_signal (test_results wk'))))"
proof -
  from TestWorker_init_known[of ch prm dlo dhi] assms(3) obtain lo hi where
    wk: "range_min wk = Some lo" "range_max wk = Some hi" "device_min wk = Some dlo"
        "device_max wk = Some dhi" "w_cycles wk = init_cycles (cycles prm)" "test_results wk = []"
    by force
  have cyc: "(case cycles prm of
            None \<Rightarrow> w_cycles wk = None
          | Some n \<Rightarrow> if n \<le> 0 then w_cycles wk = None else w_cycles wk = Some n)"
    by (simp add: wk(5) init_cycles_def split: option.splits)
  have passes: "\<exists>rs w'. run_cycles env k wk 0 w =
                Inr (True, wk\<lparr>test_results := rs\<rparr>, int k, w')
        \<and> length rs = k
        \<and> emitted_outcomes (events w') = emitted_outcomes (events w) @ map outcome_signal rs"
    if "case w_cycles wk of None \<Rightarrow> True | Some c \<Rightarrow> 0 + int k \<le> c" for k
    using run_cycles_all_attempts[OF assms(1,2) wk(1-4) that, of w] by (simp add: wk(6))
  show ?thesis
  proof (cases "w_cycles wk")
    case None
    have "run_loop env k wk 0 w = None
         \<and> (\<exists>wk' w'. run_cycles env k wk 0 w = Inr (True, wk', int k, w')
               \<and> length (test_results wk') = k
               \<and> emitted_outcomes (events w') =
                   emitted_outcomes (events w) @ map outcome_signal (test_results wk'))" for k
    proof -
      from passes[of k] None obtain rs w' where
        p: "run_cycles env k wk 0 w = Inr (True, wk\<lparr>test_results := rs\<rparr>, int k, w')"
           "length rs = k"
           "emitted_outcomes (events w') = emitted_outcomes (events w) @ map outcome_signal rs"
        by auto
      from run_loop_after_cycles[OF p(1), of 0] have "run_loop env k wk 0 w = None"
        by simp
      moreover have "length (test_results (wk\<lparr>test_results := rs\<rparr>)) = k"
        "emitted_outcomes (events w') =
           emitted_outcomes (events w) @ map outcome_signal (test_results (wk\<lparr>test_results := rs\<rparr>))"
        using p(2,3) by simp_all
      ultimately show ?thesis using p(1) by blast
    qed
    with cyc None show ?thesis by simp
  next
    case (Some N)
    with wk(5) have pos: "0 < N"
      by (auto simp: init_cycles_def split: option.splits if_splits)
    from passes[of "nat N"] Some pos obtain rs w1 where
      p: "run_cycles env (nat N) wk 0 w = Inr (True, wk\<lparr>test_results := rs\<rparr>, N, w1)"
         "length rs = nat N"
         "emitted_outcomes (events w1) = emitted_outcomes (events w) @ map outcome_signal rs"
      by auto
    have "\<not> (running_read env (n_run w1) \<and> cycles_left (wk\<lparr>test_results := rs\<rparr>) N)"
      by (simp add: cycles_left_def Some)
    from run_cycle_exit[OF this] have
      "run_loop env (Suc 0) (wk\<lparr>test_results := rs\<rparr>) N w1 =
         Some (Inr (wk\<lparr>test_results := rs\<rparr>, N, w1\<lparr>n_run := Suc (n_run w1)\<rparr>))"
      by simp
    with run_loop_after_cycles[OF p(1), of "Suc 0"] have
      "run_loop env (Suc (nat N)) wk 0 w =
         Some (Inr (wk\<lparr>test_results := rs\<rparr>, N, w1\<lparr>n_run := Suc (n_run w1)\<rparr>))"
      by simp
    moreover have "length (test_results (wk\<lparr>test_results := rs\<rparr>)) = nat N"
      using p(2) by simp
    moreover have "emitted_outcomes (events (w1\<lparr>n_run := Suc (n_run w1)\<rparr>)) =
        emitted_outcomes (events w) @ map outcome_signal (test_results (wk\<lparr>test_results := rs\<rparr>))"
      using p(3) by simp
    ultimately have "\<exists>wk' w'. run_loop env (Suc (nat N)) wk 0 w = Some (Inr (wk', N, w'))
                 \<and> length (test_results wk') = nat N
                 \<and> emitted_outcomes (events w') =
                     emitted_outcomes (events w) @ map outcome_signal (test_results wk')"
      by blast
    with cyc Some show ?thesis by simp
  qed
qed

theorem run_records_all_cycles_witness:
  "w_cycles demo_worker = Some 2
   \<and> (\<exists>wk' w'. run_loop prompt_env (Suc (nat 2)) demo_worker 0 world0 = Some (Inr (wk', 2, w'))
         \<and> length (test_results wk') = nat 2
         \<and> emitted_outcomes (events w') = map outcome_signal (test_results wk'))
   \<and> w_cycles endless_worker = None
   \<and> run_loop prompt_env 5 endless_worker 0 world0 = None
   \<and> (\<exists>wk' w'. run_cycles prompt_env 5 endless_worker 0 world0 = Inr (True, wk', 5, w')
         \<and> length (test_results wk') = 5)"
proof -
  have ok: "\<forall>j. running_read prompt_env j" "\<forall>j. reachable prompt_env j"
    by (simp_all add: prompt_env_def reachable_def reply_def)
  note th = run_records_all_cycles[OF ok demo_worker_def, of world0]
  have c: "w_cycles demo_worker = Some 2"
    using th by (simp add: demo_params_def)
  have e: "emitted_outcomes (events world0) = []"
    by (simp add: world0_def)
  from th have finite:
    "\<exists>wk' w'. run_loop prompt_env (Suc (nat 2)) demo_worker 0 world0 = Some (Inr (wk', 2, w'))
         \<and> length (test_results wk') = nat 2
         \<and> emitted_outcomes (events w') = map outcome_signal (test_results wk')"
    unfolding c e by simp
  note tu = run_records_all_cycles[OF ok endless_worker_def, of world0]
  have u: "w_cycles endless_worker = None"
    using tu by (simp add: demo_params_def)
  from tu have "\<forall>k. run_loop prompt_env k endless_worker 0 world0 = None
      \<and> (\<exists>wk' w'. run_cycles prompt_env k endless_worker 0 world0 = Inr (True, wk', int k, w')
            \<and> length (test_results wk') = k
            \<and> emitted_outcomes (events w') =
                emitted_outcomes (events world0) @ map outcome_signal (test_results wk'))"
    unfolding u by simp
  then have "run_loop prompt_env 5 endless_worker 0 world0 = None
      \<and> (\<exists>wk' w'. run_cycles prompt_env 5 endless_worker 0 world0 = Inr (True, wk', int 5, w')
            \<and> length (test_results wk') = 5
            \<and> emitted_outcomes (events w') =
                emitted_outcomes (events world0) @ map outcome_signal (test_results wk'))"
    by (rule spec)
  then have "run_loop prompt_env 5 endless_worker 0 world0 = None
      \<and> (\<exists>wk' w'. run_cycles prompt_env 5 endless_worker 0 world0 = Inr (True, wk', 5, w')
            \<and> length (test_results wk') = 5)"
    by auto
  with c u finite show ?thesis by blast
qed

lemma clamp_to_device_bounds:
  "dlo \<le> dhi \<Longrightarrow> dlo \<le> clamp_to_device x dlo dhi \<and> clamp_to_device x dlo dhi \<le> dhi"
  by (simp add: clamp_to_device_def)

lemma run_cycle_no_range:
  assumes "running_read env (n_run w)" "cycles_left wk attempts" "reachable env (n_conn w)"
    and "range_min wk = None \<or> range_max wk = None"
  shows "run_cycle env wk attempts w = Inl TypeError"
  using assms
  by (auto simp: run_cycle_def cycles_left_def read_running_def check_connection_reachable
      split: option.splits)

lemma run_cycle_within:
  assumes le: "dlo \<le> dhi" and dev: "device_min wk = Some dlo" "device_max wk = Some dhi"
    and res: "run_cycle env wk a w = Inr (go, wk', a', w')"
  shows "\<exists>es rs. events w' = events w @ es
     \<and> wk' = wk\<lparr>test_results := test_results wk @ rs\<rparr>
     \<and> commanded_wavelengths es = map wavelength rs
     \<and> list_all (\<lambda>r. dlo \<le> wavelength r \<and> wavelength r \<le> dhi) rs"
proof -
  consider (exit) "\<not> (running_read env (n_run w) \<and> cycles_left wk a)"
    | (lost) "running_read env (n_run w)" "cycles_left wk a" "\<not> reachable env (n_conn w)"
    | (norange) "running_read env (n_run w)" "cycles_left wk a" "reachable env (n_conn w)"
        "range_min wk = None \<or> range_max wk = None"
    | (attempt) lo hi where "running_read env (n_run w)" "cycles_left wk a"
        "reachable env (n_conn w)" "range_min wk = Some lo" "range_max wk = Some hi"
    by (cases "range_min wk"; cases "range_max wk") auto
  then show ?thesis
  proof cases
    case exit
    from run_cycle_exit[OF exit] res have "events w' = events w @ []"
      "wk' = wk\<lparr>test_results := test_results wk @ []\<rparr>"
      by auto
    then show ?thesis by force
  next
    case lost
    from run_cycle_unreachable[OF lost] res have "events w' = events w @ [ConnectionLost, Sleep 2]"
      "wk' = wk\<lparr>test_results := test_results wk @ []\<rparr>"
      by auto
    then show ?thesis by force
  next
    case norange
    from run_cycle_no_range[OF norange] res show ?thesis by simp
  next
    case attempt
    from run_cycle_attempt[OF attempt(1,2,3,4,5) dev, of ] res obtain t s d es wl where
      wl: "wl = clamp_to_device (py_round1 (fadd lo (fmul (fsub hi lo) (random_unit env (n_rand w))))) dlo dhi"
      and wk': "wk' = wk\<lparr>test_results := test_results wk @
               [\<lparr>timestamp = t, wavelength = wl, wl_success = s, wl_duration = d\<rparr>]\<rparr>"
      and ev: "events w' = events w @ (CurrentWavelength wl
          # CommandSent (PutWavelength (channel wk) wl) # es @
          [UpdateStatus s d wl,
           ProgressUpdate (a + 1) (case w_cycles wk of None \<Rightarrow> 0 | Some c \<Rightarrow> c),
           Sleep (fadd (w_wait_time wk) 3)])"
      and es: "set es \<subseteq> {CommandSent (GetStatus (channel wk)), ConnectionLost, Sleep (1/2), Sleep 1}"
      by auto
    have "commanded_wavelengths (CurrentWavelength wl
          # CommandSent (PutWavelength (channel wk) wl) # es @
          [UpdateStatus s d wl,
           ProgressUpdate (a + 1) (case w_cycles wk of None \<Rightarrow> 0 | Some c \<Rightarrow> c),
           Sleep (fadd (w_wait_time wk) 3)])
        = map wavelength [\<lparr>timestamp = t, wavelength = wl, wl_success = s, wl_duration = d\<rparr>]"
      using polling_events_silent[OF es] by (simp add: commanded_wavelengths_append)
    moreover have "list_all (\<lambda>r. dlo \<le> wavelength r \<and> wavelength r \<le> dhi)
        [\<lparr>timestamp = t, wavelength = wl, wl_success = s, wl_duration = d\<rparr>]"
      using clamp_to_device_bounds[OF le] by (simp add: wl)
    ultimately show ?thesis
      using wk' ev by blast
  qed
qed

text \<open>
  Claim C8.  For a device range with \<open>device.min \<le> device.max\<close>, every wavelength that the
  loop of \<open>run\<close> sends to the device, after any number of passes and whatever the resolved
  interval, the random draws and the rounding are, lies within
  \<open>[device.min, device.max]\<close>; these are exactly the wavelengths recorded in the outcomes.
\<close>

theorem commanded_wavelengths_within_device:
  assumes "dlo \<le> dhi" and "device_min wk = Some dlo" and "device_max wk = Some dhi"
    and "run_cycles env k wk a w = Inr (go, wk', a', w')"
  shows "\<exists>es rs. events w' = events w @ es
     \<and> wk' = wk\<lparr>test_results := test_results wk @ rs\<rparr>
     \<and> commanded_wavelengths es = map wavelength rs
     \<and> list_all (\<lambda>x. dlo \<le> x \<and> x \<le> dhi) (commanded_wavelengths es)
     \<and> list_all (\<lambda>r. dlo \<le> wavelength r \<and> wavelength r \<le> dhi) rs"
  using assms(2-)
proof (induction k arbitrary: wk a w)
  case 0
  then have "events w' = events w @ []" "wk' = wk\<lparr>test_results := test_results wk @ []\<rparr>"
    by simp_all
  then show ?case by force
next
  case (Suc k)
  from Suc.prems(3) obtain g1 wk1 a1 w1 where
    one: "run_cycle env wk a w = Inr (g1, wk1, a1, w1)"
    by (auto split: sum.splits)
  from run_cycle_within[OF assms(1) Suc.prems(1,2) one] obtain es1 rs1 where
    s1: "events w1 = events w @ es1" "wk1 = wk\<lparr>test_results := test_results wk @ rs1\<rparr>"
        "commanded_wavelengths es1 = map wavelength rs1"
        "list_all (\<lambda>r. dlo \<le> wavelength r \<and> wavelength r \<le> dhi) rs1"
    by blast
  have "\<exists>es2 rs2. events w' = events w1 @ es2
     \<and> wk' = wk1\<lparr>test_results := test_results wk1 @ rs2\<rparr>
     \<and> commanded_wavelengths es2 = map wavelength rs2
     \<and> list_all (\<lambda>r. dlo \<le> wavelength r \<and> wavelength r \<le> dhi) rs2"
  proof (cases g1)
    case True
    with one Suc.prems(3) have rest: "run_cycles env k wk1 a1 w1 = Inr (go, wk', a', w')"
      by simp
    have "device_min wk1 = Some dlo" "device_max wk1 = Some dhi"
      using Suc.prems(1,2) by (simp_all add: s1(2))
    from Suc.IH[OF this rest] show ?thesis by blast
  next
    case False
    with one Suc.prems(3) have "events w' = events w1 @ []"
      "wk' = wk1\<lparr>test_results := test_results wk1 @ []\<rparr>"
      by simp_all
    then show ?thesis by force
  qed
  then obtain es2 rs2 where
    s2: "events w' = events w1 @ es2" "wk' = wk1\<lparr>test_results := test_results wk1 @ rs2\<rparr>"
        "commanded_wavelengths es2 = map wavelength rs2"
        "list_all (\<lambda>r. dlo \<le> wavelength r \<and> wavelength r \<le> dhi) rs2"
    by blast
  have "events w' = events w @ (es1 @ es2)"
    using s1(1) s2(1) by simp
  moreover have "wk' = wk\<lparr>test_results := test_results wk @ (rs1 @ rs2)\<rparr>"
    using s1(2) s2(2) by simp
  moreover have c: "commanded_wavelengths (es1 @ es2) = map wavelength (rs1 @ rs2)"
    using s1(3) s2(3) by (simp add: commanded_wavelengths_append)
  moreover have r: "list_all (\<lambda>r. dlo \<le> wavelength r \<and> wavelength r \<le> dhi) (rs1 @ rs2)"
    using s1(4) s2(4) by simp
  moreover have "list_all (\<lambda>x. dlo \<le> x \<and> x \<le> dhi) (commanded_wavelengths (es1 @ es2))"
    using r unfolding c by (auto simp: list_all_iff)
  ultimately show ?case by blast
qed

theorem commanded_wavelengths_within_device_witness:
  "\<exists>wk' w'. run_cycles prompt_env 2 demo_worker 0 world0 = Inr (True, wk', 2, w')
     \<and> list_all (\<lambda>x. 700 \<le> x \<and> x \<le> 1000) (commanded_wavelengths (events w'))
     \<and> length (commanded_wavelengths (events w')) = 2"
proof -
  have run: "\<forall>j. running_read prompt_env j" "\<forall>j. reachable prompt_env j"
    by (simp_all add: prompt_env_def reachable_def reply_def)
  from TestWorker_init_known[of 1 demo_params 700 1000] obtain lo hi where
    wk: "range_min demo_worker = Some lo" "range_max demo_worker = Some hi"
        "device_min demo_worker = Some 700" "device_max demo_worker = Some 1000"
        "w_cycles demo_worker = Some 2" "test_results demo_worker = []"
    by (auto simp: demo_worker_def demo_params_def init_cycles_def)
  have "case w_cycles demo_worker of None \<Rightarrow> True | Some c \<Rightarrow> 0 + int 2 \<le> c"
    by (simp add: wk(5))
  from run_cycles_all_attempts[OF run wk(1-4) this, of world0] obtain rs w' where
    two: "run_cycles prompt_env 2 demo_worker 0 world0 =
            Inr (True, demo_worker\<lparr>test_results := test_results demo_worker @ rs\<rparr>, 2, w')"
         "length rs = 2"
    by auto
  have le: "(700::real) \<le> 1000" by simp
  from commanded_wavelengths_within_device[OF le wk(3,4) two(1)] obtain es rs' where
    w: "events w' = events world0 @ es"
       "demo_worker\<lparr>test_results := test_results demo_worker @ rs\<rparr>
          = demo_worker\<lparr>test_results := test_results demo_worker @ rs'\<rparr>"
       "commanded_wavelengths es = map wavelength rs'"
       "list_all (\<lambda>x. 700 \<le> x \<and> x \<le> 1000) (commanded_wavelengths es)"
    by blast
  from w(2) have "test_results (demo_worker\<lparr>test_results := test_results demo_worker @ rs\<rparr>)
      = test_results (demo_worker\<lparr>test_results := test_results demo_worker @ rs'\<rparr>)"
    by simp
  then have "rs' = rs" by simp
  with w two show ?thesis
    by (intro exI[of _ "demo_worker\<lparr>test_results := test_results demo_worker @ rs\<rparr>"]
        exI[of _ w']) (simp add: world0_def)
qed

text \<open>
  Claim C10.  A worker constructed while a bound of the device range is \<open>None\<close> has both
  resolved bounds cleared; its \<open>run\<close> returns at once, for any fuel: the only event is
  \<open>finished\<close>, no outcome is recorded, nothing is asked of the device (no reachability
  check, no \<open>PUT\<close>, no status poll, no power query) and no power-curve result is emitted.
\<close>

theorem run_range_unknown:
  assumes "fst dr = None \<or> snd dr = None" and "wk = TestWorker_init ch prm dr"
  shows "range_min wk = None \<and> range_max wk = None
     \<and> (\<exists>w'. run env fuel wk w = Some (Inr (wk, w'))
           \<and> events w' = events w @ [Finished]
           \<and> n_conn w' = n_conn w \<and> n_put w' = n_put w \<and> n_poll w' = n_poll w
           \<and> n_power w' = n_power w \<and> n_rand w' = n_rand w \<and> n_run w' = n_run w)
     \<and> test_results wk = [] \<and> power_curve_data wk = []"
proof -
  have "resolve_range (test_min prm) (test_max prm) (fst dr) (snd dr) = (None, None)"
    using assms(1) by (cases "fst dr"; cases "snd dr") (simp_all add: resolve_range_def)
  then have wk: "range_min wk = None" "range_max wk = None" "test_results wk = []"
    "power_curve_data wk = []"
    by (simp_all add: assms(2) TestWorker_init_def)
  then have same: "wk\<lparr>test_results := []\<rparr> = wk"
    by simp
  have "run env fuel wk w = Some (Inr (wk, emit Finished (configure_logs env (channel wk) w)))"
    by (simp add: run_def wk(1) same)
  moreover have "events (emit Finished (configure_logs env (channel wk) w)) = events w @ [Finished]"
    "n_conn (emit Finished (configure_logs env (channel wk) w)) = n_conn w"
    "n_put (emit Finished (configure_logs env (channel wk) w)) = n_put w"
    "n_poll (emit Finished (configure_logs env (channel wk) w)) = n_poll w"
    "n_power (emit Finished (configure_logs env (channel wk) w)) = n_power w"
    "n_rand (emit Finished (configure_logs env (channel wk) w)) = n_rand w"
    "n_run (emit Finished (configure_logs env (channel wk) w)) = n_run w"
    by (simp_all add: configure_logs_def io_defs)
  ultimately show ?thesis
    using wk by blast
qed

theorem run_range_unknown_witness:
  "range_min (TestWorker_init 1 demo_params (None, Some 1000)) = None
   \<and> (\<exists>w'. run prompt_env 0 (TestWorker_init 1 demo_params (None, Some 1000)) world0
              = Some (Inr (TestWorker_init 1 demo_params (None, Some 1000), w'))
         \<and> events w' = [Finished] \<and> n_put w' = 0 \<and> n_conn w' = 0)"
proof -
  have "fst (None :: real option, Some (1000::real)) = None \<or> snd (None :: real option, Some (1000::real)) = None"
    by simp
  from run_range_unknown[OF this refl, of 1 demo_params prompt_env 0 world0] show ?thesis
    by (auto simp: world0_def)
qed

section \<open>Properties of the power curve\<close>

lemma py_int_of_int: "py_int (of_int a) = a"
  by (simp add: py_int_def)

lemma py_int_mono: "x \<le> y \<Longrightarrow> py_int x \<le> py_int y"
proof -
  assume le: "x \<le> y"
  have neg: "\<lceil>z\<rceil> \<le> 0" if "z < 0" for z :: real
    using that by (simp add: ceiling_le_iff)
  have pos: "0 \<le> \<lfloor>z\<rfloor>" if "0 \<le> z" for z :: real
    using that by simp
  show ?thesis
  proof (cases "0 \<le> x")
    case True
    with le show ?thesis by (simp add: py_int_def floor_mono)
  next
    case False
    show ?thesis
    proof (cases "0 \<le> y")
      case True
      from False have "\<lceil>x\<rceil> \<le> 0" by (intro neg) simp
      moreover from True have "0 \<le> \<lfloor>y\<rfloor>" by (rule pos)
      ultimately have "\<lceil>x\<rceil> \<le> \<lfloor>y\<rfloor>" by linarith
      with False True show ?thesis
        by (simp add: py_int_def)
    next
      case y: False
      with False le show ?thesis by (simp add: py_int_def ceiling_mono)
    qed
  qed
qed

lemma div10_step: "(x + 10) div 10 = x div 10 + (1::int)"
  by simp

lemma range_step10_eq:
  "range_step10 a b = map (\<lambda>k. a + 10 * int k) [0..<nat ((b - a + 9) div 10)]"
proof (induction a b rule: range_step10.induct)
  case (1 a b)
  show ?case
  proof (cases "a < b")
    case True
    define x where "x = b - (a + 10) + 9"
    define m where "m = nat (x div 10)"
    have x0: "0 \<le> x" using True by (simp add: x_def)
    have "b - a + 9 = x + 10" by (simp add: x_def)
    then have "(b - a + 9) div 10 = x div 10 + 1"
      by (simp only: div10_step)
    moreover have "0 \<le> x div 10"
      using x0 by (simp add: pos_imp_zdiv_nonneg_iff)
    ultimately have n: "nat ((b - a + 9) div 10) = Suc m"
      by (simp add: m_def nat_add_distrib)
    have f: "a + 10 * int (Suc k) = a + 10 + 10 * int k" for k
      by simp
    have "range_step10 a b = a # range_step10 (a + 10) b"
      using True by (subst range_step10.simps) simp
    also have "\<dots> = a # map (\<lambda>k. a + 10 + 10 * int k) [0..<m]"
      using 1[OF True] by (simp only: m_def x_def)
    also have "\<dots> = map (\<lambda>k. a + 10 * int k) (0 # map Suc [0..<m])"
      by (simp only: list.map map_map o_def f) simp
    also have "0 # map Suc [0..<m] = [0..<Suc m]"
      by (simp only: map_Suc_upt upt_conv_Cons[OF zero_less_Suc])
    finally show ?thesis by (simp only: n)
  next
    case False
    then have "\<not> 0 < (b - a + 9) div 10"
      by (simp add: pos_imp_zdiv_pos_iff)
    then have "nat ((b - a + 9) div 10) = 0" by simp
    moreover have "range_step10 a b = []"
      using False by (subst range_step10.simps) simp
    ultimately show ?thesis by simp
  qed
qed

lemma power_curve_wls_int_grid:
  assumes "L \<le> H"
  shows "(case range_step10 L (H + 1) of
            [] \<Rightarrow> Inl IndexError
          | wls \<Rightarrow> if last wls < H then Inr (wls @ [H]) else Inr wls)
       = Inr (map (\<lambda>k. L + 10 * int k) [0..<Suc (nat ((H - L) div 10))]
              @ (if (H - L) mod 10 = 0 then [] else [H]))"
proof -
  define q where "q = nat ((H - L) div 10)"
  have d: "0 \<le> (H - L) div 10"
    using assms by (simp add: pos_imp_zdiv_nonneg_iff)
  have "H + 1 - L + 9 = (H - L) + 10" by simp
  then have "(H + 1 - L + 9) div 10 = (H - L) div 10 + 1"
    by (simp only: div10_step)
  with d have n: "nat ((H + 1 - L + 9) div 10) = Suc q"
    by (simp add: q_def nat_add_distrib)
  have r: "range_step10 L (H + 1) = map (\<lambda>k. L + 10 * int k) [0..<Suc q]"
    by (simp only: range_step10_eq n)
  have l: "last (map (\<lambda>k. L + 10 * int k) [0..<Suc q]) = L + 10 * ((H - L) div 10)"
    using d by (simp add: q_def)
  have "(L + 10 * ((H - L) div 10) < H) = ((H - L) mod 10 \<noteq> 0)"
  proof -
    have "H - L = 10 * ((H - L) div 10) + (H - L) mod 10" by simp
    moreover have "0 \<le> (H - L) mod 10" by simp
    ultimately show ?thesis by linarith
  qed
  with l have c: "(last (map (\<lambda>k. L + 10 * int k) [0..<Suc q]) < H) = ((H - L) mod 10 \<noteq> 0)"
    by simp
  have ne: "map (\<lambda>k. L + 10 * int k) [0..<Suc q] \<noteq> []"
    by simp
  show ?thesis
    unfolding r q_def[symmetric] using c ne
    by (cases "map (\<lambda>k. L + 10 * int k) [0..<Suc q]") (simp_all del: upt_Suc)
qed

lemma span_bounds_ordered:
  assumes "\<not> fsub hi lo < 10"
  shows "lo \<le> hi"
proof (rule ccontr)
  assume "\<not> lo \<le> hi"
  then have "hi - lo \<le> 0" by simp
  then have "round_double (hi - lo) \<le> 0" by (rule round_double_nonpos)
  with assms show False by (simp add: fsub_def)
qed

lemma power_curve_wls_closed_form: "power_curve_wls lo hi = Inr (sample_grid lo hi)"
proof (cases "fsub hi lo < 10")
  case True
  then show ?thesis by (simp add: power_curve_wls_def sample_grid_def)
next
  case False
  then have "py_int lo \<le> py_int hi"
    by (intro py_int_mono span_bounds_ordered)
  from power_curve_wls_int_grid[OF this] False show ?thesis
    by (simp add: power_curve_wls_def sample_grid_def)
qed

lemma sample_grid_nonempty: "sample_grid lo hi \<noteq> []"
  by (simp add: sample_grid_def)

lemma sample_grid_whole_bounds:
  assumes "\<bar>a\<bar> < 2 ^ 52" "\<bar>b\<bar> < 2 ^ 52"
  shows "sample_grid (of_int a) (of_int b) =
     (if b - a < 10 then [py_int (of_int (a + b) / 2)]
      else map (\<lambda>k. a + 10 * int k) [0..<Suc (nat ((b - a) div 10))]
           @ (if (b - a) mod 10 = 0 then [] else [b]))"
proof -
  have "(2::int) ^ 53 = 2 * 2 ^ 52" by simp
  with assms have "\<bar>b - a\<bar> < 2 ^ 53" "\<bar>a + b\<bar> < 2 ^ 53"
    by linarith+
  then have "round_double (of_int (b - a)) = of_int (b - a)"
    "round_double (of_int (a + b)) = of_int (a + b)"
    "round_double (of_int (a + b) / 2) = of_int (a + b) / 2"
    by (simp_all only: round_double_of_int round_double_half)
  then have f: "fsub (of_int b) (of_int a) = of_int (b - a)"
    "fdiv (fadd (of_int a) (of_int b)) 2 = of_int (a + b) / 2"
    by (simp_all add: fsub_def fadd_def fdiv_def)
  have "(real_of_int (b - a) < 10) = (b - a < 10)"
    by linarith
  then show ?thesis
    unfolding sample_grid_def f py_int_of_int by simp
qed

lemma recheck_connection_eq:
  "recheck_connection env w =
     (if reachable env (n_conn w) then (True, w\<lparr>n_conn := Suc (n_conn w)\<rparr>)
      else (reachable env (Suc (n_conn w)),
            w\<lparr>n_conn := Suc (Suc (n_conn w)), events := events w @ [ConnectionLost, Sleep 2]\<rparr>))"
  by (simp add: recheck_connection_def check_connection_reachable emit_def sleep_def)

lemma record_power_effect:
  assumes "record_power env ch wl data w = (data', w')"
  shows "events w' = events w @ [Sleep 3, CommandSent (GetPower ch)]"
    and "data' = data \<or> (\<exists>v. data' = data @ [\<lparr>ps_wavelength = wl, ps_power = v\<rparr>])"
  using assms
  by (auto simp: record_power_def io_defs split: option.splits if_splits)

lemma power_curve_loop_stop:
  assumes "\<not> running_read env (n_run w)"
  shows "power_curve_loop env wk (x # xs) data w = Inr (data, w\<lparr>n_run := Suc (n_run w)\<rparr>)"
  using assms by (simp add: read_running_def)

lemma power_curve_loop_unreachable:
  assumes "running_read env (n_run w)" "\<not> reachable env (n_conn w)"
    "\<not> reachable env (Suc (n_conn w))"
  shows "power_curve_loop env wk (x # xs) data w =
     Inr (data, w\<lparr>n_run := Suc (n_run w), n_conn := Suc (Suc (n_conn w)),
                  events := events w @ [ConnectionLost, Sleep 2]\<rparr>)"
  using assms by (simp add: read_running_def recheck_connection_eq)

lemma power_curve_loop_step:
  assumes run: "running_read env (n_run w)"
    and reach: "reachable env (n_conn w) \<or> reachable env (Suc (n_conn w))"
    and dev: "device_min wk = Some dlo" "device_max wk = Some dhi"
  shows "\<exists>data1 w1 es.
     power_curve_loop env wk (x # xs) data w = power_curve_loop env wk xs data1 w1
     \<and> events w1 = events w @ (if reachable env (n_conn w) then [] else [ConnectionLost, Sleep 2])
          @ CommandSent (PutWavelength (channel wk) (clamp_to_device (of_int x) dlo dhi)) # es
     \<and> commanded_wavelengths es = []
     \<and> (data1 = data
          \<or> (\<exists>v. data1 = data @ [\<lparr>ps_wavelength = clamp_to_device (of_int x) dlo dhi,
                                   ps_power = v\<rparr>]))"
proof -
  define wl where "wl = clamp_to_device (of_int x) dlo dhi"
  define e0 where "e0 = (if reachable env (n_conn w) then [] else [ConnectionLost, Sleep 2])"
  define w2 where "w2 = snd (recheck_connection env (snd (read_running env w)))"
  have rc: "recheck_connection env (snd (read_running env w)) = (True, w2)"
    using reach by (auto simp: w2_def recheck_connection_eq read_running_def)
  have ev2: "events w2 = events w @ e0"
    by (simp add: w2_def e0_def recheck_connection_eq read_running_def)
  obtain s d w3 where att: "perform_wavelength_attempt env (channel wk) wl w2 = ((s, d), w3)"
    by (metis surj_pair)
  from perform_wavelength_attempt_effect[OF att] obtain es1 where
    es1: "events w3 = events w2 @ CommandSent (PutWavelength (channel wk) wl) # es1"
         "set es1 \<subseteq> {CommandSent (GetStatus (channel wk)), ConnectionLost, Sleep (1/2), Sleep 1}"
    unfolding attempt_effect_def by blast
  note silent = polling_events_silent[OF es1(2)]
  show ?thesis
  proof (cases s)
    case True
    obtain data1 w4 where rp: "record_power env (channel wk) wl data w3 = (data1, w4)"
      by (metis surj_pair)
    have "power_curve_loop env wk (x # xs) data w = power_curve_loop env wk xs data1 w4"
      using run rc dev att rp True
      by (simp add: read_running_def wl_def)
    moreover have "events w4 = events w @ e0
          @ CommandSent (PutWavelength (channel wk) wl) # (es1 @ [Sleep 3, CommandSent (GetPower (channel wk))])"
      using record_power_effect(1)[OF rp] es1(1) ev2 by simp
    moreover have "commanded_wavelengths (es1 @ [Sleep 3, CommandSent (GetPower (channel wk))]) = []"
      using silent by (simp add: commanded_wavelengths_append)
    moreover have "data1 = data \<or> (\<exists>v. data1 = data @ [\<lparr>ps_wavelength = wl, ps_power = v\<rparr>])"
      using record_power_effect(2)[OF rp] .
    ultimately show ?thesis
      unfolding wl_def e0_def by blast
  next
    case False
    have "power_curve_loop env wk (x # xs) data w = power_curve_loop env wk xs data w3"
      using run rc dev att False
      by (simp add: read_running_def wl_def)
    moreover have "events w3 = events w @ e0 @ CommandSent (PutWavelength (channel wk) wl) # es1"
      using es1(1) ev2 by simp
    ultimately show ?thesis
      using silent unfolding wl_def e0_def by blast
  qed
qed

lemma power_curve_loop_prefix:
  assumes dev: "device_min wk = Some dlo" "device_max wk = Some dhi"
  shows "\<exists>new w' es m. power_curve_loop env wk xs data w = Inr (data @ new, w')
     \<and> events w' = events w @ es \<and> m \<le> length xs
     \<and> commanded_wavelengths es = map (\<lambda>x. clamp_to_device (of_int x) dlo dhi) (take m xs)
     \<and> subseq (map ps_wavelength new) (map (\<lambda>x. clamp_to_device (of_int x) dlo dhi) (take m xs))
     \<and> ((\<forall>k. running_read env k) \<and> (\<forall>k. reachable env k \<or> reachable env (Suc k))
          \<longrightarrow> m = length xs)"
proof (induction xs arbitrary: data w)
  case Nil
  have "power_curve_loop env wk [] data w = Inr (data @ [], w)" "events w = events w @ []"
    by simp_all
  then show ?case by force
next
  case (Cons x xs)
  let ?c = "\<lambda>x. clamp_to_device (of_int x) dlo dhi"
  consider (stop) "\<not> running_read env (n_run w)"
    | (lost) "running_read env (n_run w)" "\<not> reachable env (n_conn w)"
        "\<not> reachable env (Suc (n_conn w))"
    | (go) "running_read env (n_run w)" "reachable env (n_conn w) \<or> reachable env (Suc (n_conn w))"
    by blast
  then show ?case
  proof cases
    case stop
    let ?w' = "w\<lparr>n_run := Suc (n_run w)\<rparr>"
    have "power_curve_loop env wk (x # xs) data w = Inr (data @ [], ?w')"
      using power_curve_loop_stop[OF stop] by simp
    moreover have "events ?w' = events w @ []" "(0::nat) \<le> length (x # xs)"
      "commanded_wavelengths [] = map ?c (take 0 (x # xs))"
      "subseq (map ps_wavelength []) (map ?c (take 0 (x # xs)))"
      by simp_all
    moreover have "(\<forall>k. running_read env k) \<and> (\<forall>k. reachable env k \<or> reachable env (Suc k))
          \<longrightarrow> 0 = length (x # xs)"
      using stop by blast
    ultimately show ?thesis by blast
  next
    case lost
    let ?w' = "w\<lparr>n_run := Suc (n_run w), n_conn := Suc (Suc (n_conn w)),
                  events := events w @ [ConnectionLost, Sleep 2]\<rparr>"
    have "power_curve_loop env wk (x # xs) data w = Inr (data @ [], ?w')"
      using power_curve_loop_unreachable[OF lost] by simp
    moreover have "events ?w' = events w @ [ConnectionLost, Sleep 2]" "(0::nat) \<le> length (x # xs)"
      "commanded_wavelengths [ConnectionLost, Sleep 2] = map ?c (take 0 (x # xs))"
      "subseq (map ps_wavelength []) (map ?c (take 0 (x # xs)))"
      by simp_all
    moreover have "(\<forall>k. running_read env k) \<and> (\<forall>k. reachable env k \<or> reachable env (Suc k))
          \<longrightarrow> 0 = length (x # xs)"
      using lost by blast
    ultimately show ?thesis by blast
  next
    case go
    from power_curve_loop_step[OF go dev, of x xs data] obtain data1 w1 es1 where
      s: "power_curve_loop env wk (x # xs) data w = power_curve_loop env wk xs data1 w1"
         "events w1 = events w @ (if reachable env (n_conn w) then [] else [ConnectionLost, Sleep 2])
            @ CommandSent (PutWavelength (channel wk) (?c x)) # es1"
         "commanded_wavelengths es1 = []"
         "data1 = data \<or> (\<exists>v. data1 = data @ [\<lparr>ps_wavelength = ?c x, ps_power = v\<rparr>])"
      by blast
    from Cons.IH[of data1 w1] obtain new w' es m where
      r: "power_curve_loop env wk xs data1 w1 = Inr (data1 @ new, w')"
         "events w' = events w1 @ es" "m \<le> length xs"
         "commanded_wavelengths es = map ?c (take m xs)"
         "subseq (map ps_wavelength new) (map ?c (take m xs))"
         "(\<forall>k. running_read env k) \<and> (\<forall>k. reachable env k \<or> reachable env (Suc k))
            \<longrightarrow> m = length xs"
      by blast
    have "\<exists>new1. data1 @ new = data @ new1
        \<and> subseq (map ps_wavelength new1) (map ?c (take (Suc m) (x # xs)))"
      using s(4)
    proof
      assume d: "data1 = data"
      have "subseq (map ps_wavelength new) (map ?c (take (Suc m) (x # xs)))"
        using r(5) by (simp add: list_emb_Cons)
      with d show ?thesis by blast
    next
      assume "\<exists>v. data1 = data @ [\<lparr>ps_wavelength = ?c x, ps_power = v\<rparr>]"
      then obtain v where d: "data1 = data @ [\<lparr>ps_wavelength = ?c x, ps_power = v\<rparr>]"
        by blast
      have "subseq (map ps_wavelength (\<lparr>ps_wavelength = ?c x, ps_power = v\<rparr> # new))
              (map ?c (take (Suc m) (x # xs)))"
        using r(5) by simp
      moreover from d have "data1 @ new = data @ (\<lparr>ps_wavelength = ?c x, ps_power = v\<rparr> # new)"
        by simp
      ultimately show ?thesis by blast
    qed
    then obtain new1 where
      n: "data1 @ new = data @ new1"
         "subseq (map ps_wavelength new1) (map ?c (take (Suc m) (x # xs)))"
      by blast
    let ?es = "(if reachable env (n_conn w) then [] else [ConnectionLost, Sleep 2])
            @ CommandSent (PutWavelength (channel wk) (?c x)) # es1 @ es"
    have "power_curve_loop env wk (x # xs) data w = Inr (data @ new1, w')"
      using s(1) r(1) n(1) by simp
    moreover have "events w' = events w @ ?es"
      using s(2) r(2) by simp
    moreover have "Suc m \<le> length (x # xs)"
      using r(3) by simp
    moreover have "commanded_wavelengths ?es = map ?c (take (Suc m) (x # xs))"
      using s(3) r(4) by (simp add: commanded_wavelengths_append)
    moreover have "(\<forall>k. running_read env k) \<and> (\<forall>k. reachable env k \<or> reachable env (Suc k))
          \<longrightarrow> Suc m = length (x # xs)"
      using r(6) by simp
    ultimately show ?thesis using n(2) by blast
  qed
qed

lemma measure_power_curve_phase_prefix:
  assumes rng: "range_min wk = Some lo" "range_max wk = Some hi"
    and dev: "device_min wk = Some dlo" "device_max wk = Some dhi"
  shows "\<exists>data w1 es m.
       power_curve_loop env wk (sample_grid lo hi) [] w = Inr (data, w1)
     \<and> measure_power_curve_phase env wk w =
         Inr (wk\<lparr>power_curve_data := data\<rparr>, emit (PowerCurveFinished data) w1)
     \<and> events w1 = events w @ es \<and> m \<le> length (sample_grid lo hi)
     \<and> commanded_wavelengths es
          = map (\<lambda>x. clamp_to_device (of_int x) dlo dhi) (take m (sample_grid lo hi))
     \<and> subseq (map ps_wavelength data)
          (map (\<lambda>x. clamp_to_device (of_int x) dlo dhi) (take m (sample_grid lo hi)))
     \<and> ((\<forall>k. running_read env k) \<and> (\<forall>k. reachable env k \<or> reachable env (Suc k))
          \<longrightarrow> m = length (sample_grid lo hi))"
proof -
  from power_curve_loop_prefix[OF dev, of env "sample_grid lo hi" "[]" w]
  obtain new w1 es m where
    r: "power_curve_loop env wk (sample_grid lo hi) [] w = Inr ([] @ new, w1)"
       "events w1 = events w @ es" "m \<le> length (sample_grid lo hi)"
       "commanded_wavelengths es
          = map (\<lambda>x. clamp_to_device (of_int x) dlo dhi) (take m (sample_grid lo hi))"
       "subseq (map ps_wavelength new)
          (map (\<lambda>x. clamp_to_device (of_int x) dlo dhi) (take m (sample_grid lo hi)))"
       "(\<forall>k. running_read env k) \<and> (\<forall>k. reachable env k \<or> reachable env (Suc k))
          \<longrightarrow> m = length (sample_grid lo hi)"
    by blast
  from r(1) have l: "power_curve_loop env wk (sample_grid lo hi) [] w = Inr (new, w1)"
    by simp
  then have "measure_power_curve_phase env wk w =
         Inr (wk\<lparr>power_curve_data := new\<rparr>, emit (PowerCurveFinished new) w1)"
    by (simp add: measure_power_curve_phase_def rng power_curve_wls_closed_form)
  with l r(2-6) show ?thesis by blast
qed

lemma measure_power_curve_phase_break:
  assumes rng: "range_min wk = Some lo" "range_max wk = Some hi"
    and c: "running_read env (n_run w)" "\<not> reachable env (n_conn w)"
      "\<not> reachable env (Suc (n_conn w))"
  shows "measure_power_curve_phase env wk w =
     Inr (wk\<lparr>power_curve_data := []\<rparr>,
          w\<lparr>n_run := Suc (n_run w), n_conn := Suc (Suc (n_conn w)),
            events := events w @ [ConnectionLost, Sleep 2, PowerCurveFinished []]\<rparr>)"
proof -
  obtain x xs where g: "sample_grid lo hi = x # xs"
    using sample_grid_nonempty[of lo hi] by (cases "sample_grid lo hi") simp_all
  show ?thesis
    using power_curve_loop_unreachable[OF c, of wk x xs "[]"]
    by (simp add: measure_power_curve_phase_def rng power_curve_wls_closed_form g emit_def)
qed

section \<open>Claims about the sample points of the power curve\<close>

text \<open>
  Claim C3, as stated, fails for bounds that are not whole numbers: \<open>int()\<close> cuts both
  bounds down.  For the interval \<open>[1000.5, 1025.5]\<close> the sample points are
  \<open>1000, 1010, 1020, 1025\<close>; even after the clamp into a device range equal to the
  interval, the exact upper bound \<open>1025.5\<close> is not among the wavelengths sampled.
\<close>

theorem power_curve_grid_counterexample:
  "power_curve_wls (2001/2) (2051/2) = Inr [1000, 1010, 1020, 1025]
   \<and> map (\<lambda>x. clamp_to_device (of_int x) (2001/2) (2051/2)) [1000, 1010, 1020, 1025]
        = [2001/2, 1010, 1020, 1025]
   \<and> (2051/2 :: real) \<notin> set [2001/2, 1010, 1020, 1025]"
proof -
  have "py_int (2001/2) = 1000" "py_int (2051/2) = 1025"
    by (simp_all add: py_int_def)
  moreover have "range_step10 1000 1026 = [1000, 1010, 1020]"
    by (simp add: range_step10_eq eval_nat_numeral)
  moreover have "fsub (2051/2) (2001/2) = 25"
    by (simp add: fsub_def)
  ultimately have "power_curve_wls (2001/2) (2051/2) = Inr [1000, 1010, 1020, 1025]"
    by (simp add: power_curve_wls_def)
  then show ?thesis
    by (simp add: clamp_to_device_def)
qed

text \<open>
  Claim C3, amended.  The sample points never raise and are a grid of whole numbers
  computed from the truncated bounds: if the float \<open>max - min\<close> is below 10, the single
  point \<open>int((min + max) / 2)\<close>; otherwise every 10 nm starting at \<open>int(min)\<close>, with
  \<open>int(max)\<close> as the last point even when it is off the 10 nm grid.  The power-curve
  phase of a worker whose range and device range are known sends to the device, in order,
  the first \<open>m\<close> points of that grid, each clamped into the device range, and nothing
  else; it sends all of them when the worker is not stopped and no reachability check
  fails twice in a row.  For bounds that are whole numbers (below \<open>2^52\<close>) the grid
  starts at the lower bound and ends at the upper bound, and the single point is the
  midpoint cut to a whole number.
\<close>

theorem power_curve_phase_grid:
  "power_curve_wls lo hi = Inr (sample_grid lo hi)
   \<and> (range_min wk = Some lo \<and> range_max wk = Some hi
        \<and> device_min wk = Some dlo \<and> device_max wk = Some dhi
      \<longrightarrow> (\<exists>wk' w' m. measure_power_curve_phase env wk w = Inr (wk', w')
             \<and> m \<le> length (sample_grid lo hi)
             \<and> commanded_wavelengths (events w')
                  = commanded_wavelengths (events w)
                    @ map (\<lambda>x. clamp_to_device (of_int x) dlo dhi) (take m (sample_grid lo hi))
             \<and> ((\<forall>k. running_read env k) \<and> (\<forall>k. reachable env k \<or> reachable env (Suc k))
                  \<longrightarrow> m = length (sample_grid lo hi))))
   \<and> (\<bar>a\<bar> < 2 ^ 52 \<and> \<bar>b\<bar> < 2 ^ 52
      \<longrightarrow> sample_grid (of_int a) (of_int b) =
            (if b - a < 10 then [py_int (of_int (a + b) / 2)]
             else map (\<lambda>k. a + 10 * int k) [0..<Suc (nat ((b - a) div 10))]
                  @ (if (b - a) mod 10 = 0 then [] else [b])))"
proof (intro conjI impI)
  show "power_curve_wls lo hi = Inr (sample_grid lo hi)"
    by (rule power_curve_wls_closed_form)
next
  assume "range_min wk = Some lo \<and> range_max wk = Some hi
        \<and> device_min wk = Some dlo \<and> device_max wk = Some dhi"
  then have h: "range_min wk = Some lo" "range_max wk = Some hi"
    "device_min wk = Some dlo" "device_max wk = Some dhi"
    by simp_all
  from measure_power_curve_phase_prefix[OF h, of env w] obtain data w1 es m where
    r: "measure_power_curve_phase env wk w =
         Inr (wk\<lparr>power_curve_data := data\<rparr>, emit (PowerCurveFinished data) w1)"
       "events w1 = events w @ es" "m \<le> length (sample_grid lo hi)"
       "commanded_wavelengths es
          = map (\<lambda>x. clamp_to_device (of_int x) dlo dhi) (take m (sample_grid lo hi))"
       "(\<forall>k. running_read env k) \<and> (\<forall>k. reachable env k \<or> reachable env (Suc k))
          \<longrightarrow> m = length (sample_grid lo hi)"
    by blast
  have "commanded_wavelengths (events (emit (PowerCurveFinished data) w1))
      = commanded_wavelengths (events w)
        @ map (\<lambda>x. clamp_to_device (of_int x) dlo dhi) (take m (sample_grid lo hi))"
    using r(2,4) by (simp add: emit_def commanded_wavelengths_append)
  with r(1,3,5) show "\<exists>wk' w' m. measure_power_curve_phase env wk w = Inr (wk', w')
             \<and> m \<le> length (sample_grid lo hi)
             \<and> commanded_wavelengths (events w')
                  = commanded_wavelengths (events w)
                    @ map (\<lambda>x. clamp_to_device (of_int x) dlo dhi) (take m (sample_grid lo hi))
             \<and> ((\<forall>k. running_read env k) \<and> (\<forall>k. reachable env k \<or> reachable env (Suc k))
                  \<longrightarrow> m = length (sample_grid lo hi))"
    by blast
next
  assume "\<bar>a\<bar> < 2 ^ 52 \<and> \<bar>b\<bar> < 2 ^ 52"
  then show "sample_grid (of_int a) (of_int b) =
            (if b - a < 10 then [py_int (of_int (a + b) / 2)]
             else map (\<lambda>k. a + 10 * int k) [0..<Suc (nat ((b - a) div 10))]
                  @ (if (b - a) mod 10 = 0 then [] else [b]))"
    by (intro sample_grid_whole_bounds) simp_all
qed

theorem power_curve_phase_grid_witness:
  "power_curve_wls 1000 1005 = Inr [1002]
   \<and> power_curve_wls 1000 1025 = Inr [1000, 1010, 1020, 1025]
   \<and> (\<exists>wk' w'. measure_power_curve_phase prompt_env demo_worker world0 = Inr (wk', w')
         \<and> commanded_wavelengths (events w')
             = [800, 810, 820, 830, 840, 850, 860, 870, 880, 890, 900])"
proof -
  have b: "\<bar>1000 :: int\<bar> < 2 ^ 52 \<and> \<bar>1005 :: int\<bar> < 2 ^ 52"
    "\<bar>1000 :: int\<bar> < 2 ^ 52 \<and> \<bar>1025 :: int\<bar> < 2 ^ 52"
    "\<bar>800 :: int\<bar> < 2 ^ 52 \<and> \<bar>900 :: int\<bar> < 2 ^ 52"
    by simp_all
  note t1 = power_curve_phase_grid[where lo="of_int 1000" and hi="of_int 1005"
      and a=1000 and b=1005]
  from t1 b(1) have "power_curve_wls (of_int 1000) (of_int 1005)
      = Inr (sample_grid (of_int 1000) (of_int 1005))"
    "sample_grid (of_int 1000) (of_int 1005) = [py_int (of_int (1000 + 1005) / 2)]"
    by simp_all
  then have first: "power_curve_wls 1000 1005 = Inr [1002]"
    by (simp add: py_int_def)
  note t2 = power_curve_phase_grid[where lo="of_int 1000" and hi="of_int 1025"
      and a=1000 and b=1025]
  from t2 b(2) have "power_curve_wls (of_int 1000) (of_int 1025)
      = Inr (sample_grid (of_int 1000) (of_int 1025))"
    "sample_grid (of_int 1000) (of_int 1025) = [1000, 1010, 1020, 1025]"
    by (simp_all add: eval_nat_numeral)
  then have second: "power_curve_wls 1000 1025 = Inr [1000, 1010, 1020, 1025]"
    by simp
  have d: "range_min demo_worker = Some (of_int 800) \<and> range_max demo_worker = Some (of_int 900)
      \<and> device_min demo_worker = Some 700 \<and> device_max demo_worker = Some 1000"
    by (simp add: demo_worker_def demo_params_def TestWorker_init_def resolve_range_def)
  have ok: "(\<forall>k. running_read prompt_env k)
      \<and> (\<forall>k. reachable prompt_env k \<or> reachable prompt_env (Suc k))"
    by (simp add: prompt_env_def reachable_def reply_def)
  note t3 = power_curve_phase_grid[where lo="of_int 800" and hi="of_int 900"
      and a=800 and b=900 and wk=demo_worker and dlo=700 and dhi=1000
      and env=prompt_env and w=world0]
  from t3 b(3) have "sample_grid (of_int 800) (of_int 900)
      = [800, 810, 820, 830, 840, 850, 860, 870, 880, 890, 900]"
    by (simp add: eval_nat_numeral)
  then have g: "sample_grid 800 900 = [800, 810, 820, 830, 840, 850, 860, 870, 880, 890, 900]"
    by simp
  from t3 d ok obtain wk' w' m where
    "measure_power_curve_phase prompt_env demo_worker world0 = Inr (wk', w')"
    "commanded_wavelengths (events w')
        = commanded_wavelengths (events world0)
          @ map (\<lambda>x. clamp_to_device (of_int x) 700 1000)
              (take m (sample_grid (of_int 800) (of_int 900)))"
    "m = length (sample_grid (of_int 800) (of_int 900))"
    by blast
  then have "measure_power_curve_phase prompt_env demo_worker world0 = Inr (wk', w')
      \<and> commanded_wavelengths (events w')
          = [800, 810, 820, 830, 840, 850, 860, 870, 880, 890, 900]"
    by (simp add: g world0_def clamp_to_device_def)
  with first second show ?thesis by blast
qed

section \<open>Claims about the power-curve loop\<close>

text \<open>
  Claim C4, as stated, fails: when the retry of the reachability check fails too, the
  loop executes \<open>break\<close>, which gives up every remaining sample point, not only the
  current one.  On a device whose first two checks fail and that is reachable afterwards,
  the phase over the eleven points of \<open>[800, 900]\<close> ends after the two checks: nothing
  is sent to the device and \<open>power_curve_finished\<close> carries an empty list.
\<close>

theorem power_curve_break_counterexample:
  "reachable flaky_env 2
   \<and> power_curve_wls 800 900 = Inr [800, 810, 820, 830, 840, 850, 860, 870, 880, 890, 900]
   \<and> measure_power_curve_phase flaky_env demo_worker world0 =
       Inr (demo_worker\<lparr>power_curve_data := []\<rparr>,
            world0\<lparr>n_run := 1, n_conn := 2,
                   events := [ConnectionLost, Sleep 2, PowerCurveFinished []]\<rparr>)"
proof -
  have r: "range_min demo_worker = Some 800" "range_max demo_worker = Some 900"
    by (simp_all add: demo_worker_def demo_params_def TestWorker_init_def resolve_range_def)
  have "sample_grid (of_int 800) (of_int 900)
      = [800, 810, 820, 830, 840, 850, 860, 870, 880, 890, 900]"
    by (subst sample_grid_whole_bounds) (simp_all add: eval_nat_numeral)
  then have g: "power_curve_wls 800 900 = Inr [800, 810, 820, 830, 840, 850, 860, 870, 880, 890, 900]"
    by (simp add: power_curve_wls_closed_form)
  have c: "running_read flaky_env (n_run world0)" "\<not> reachable flaky_env (n_conn world0)"
    "\<not> reachable flaky_env (Suc (n_conn world0))"
    by (simp_all add: flaky_env_def prompt_env_def reachable_def world0_def)
  have "measure_power_curve_phase flaky_env demo_worker world0 =
       Inr (demo_worker\<lparr>power_curve_data := []\<rparr>,
            world0\<lparr>n_run := 1, n_conn := 2,
                   events := [ConnectionLost, Sleep 2, PowerCurveFinished []]\<rparr>)"
    using measure_power_curve_phase_break[OF r c] by (simp add: world0_def)
  moreover have "reachable flaky_env 2"
    by (simp add: flaky_env_def reachable_def reply_def)
  ultimately show ?thesis
    using g by blast
qed

text \<open>
  Claim C4, amended.  During the power-curve phase a failed reachability check at a
  sample point signals connection loss and is retried once after a 2 s pause.  If the retry
  succeeds the point is attempted.  If the retry fails too, the loop ends at once: neither
  that point nor any remaining point is attempted.  The points attempted are always the
  first \<open>m\<close> points of the grid, in order, each clamped into the device range; all points
  are attempted when the worker is not stopped and no two consecutive checks fail.
  However the loop ends, the phase then emits \<open>power_curve_finished\<close> with the samples
  recorded so far, which are samples at points attempted, in that order, and stores them
  in \<open>power_curve_data\<close>; when the two checks at the first point fail, that list is
  empty and nothing has been sent to the device.
\<close>

theorem power_curve_retry_then_break:
  "(running_read env (n_run w) \<and> \<not> reachable env (n_conn w) \<and> \<not> reachable env (Suc (n_conn w))
      \<longrightarrow> power_curve_loop env wk (x # xs) data w =
            Inr (data, w\<lparr>n_run := Suc (n_run w), n_conn := Suc (Suc (n_conn w)),
                         events := events w @ [ConnectionLost, Sleep 2]\<rparr>))
   \<and> (running_read env (n_run w) \<and> \<not> reachable env (n_conn w) \<and> reachable env (Suc (n_conn w))
        \<and> device_min wk = Some dlo \<and> device_max wk = Some dhi
      \<longrightarrow> (\<exists>data1 w1 es.
             power_curve_loop env wk (x # xs) data w = power_curve_loop env wk xs data1 w1
             \<and> events w1 = events w @ [ConnectionLost, Sleep 2,
                   CommandSent (PutWavelength (channel wk) (clamp_to_device (of_int x) dlo dhi))] @ es
             \<and> commanded_wavelengths es = []))
   \<and> (device_min wk = Some dlo \<and> device_max wk = Some dhi
      \<longrightarrow> (\<exists>data' w' es m. power_curve_loop env wk ys data w = Inr (data', w')
             \<and> events w' = events w @ es \<and> m \<le> length ys
             \<and> commanded_wavelengths es
                  = map (\<lambda>x. clamp_to_device (of_int x) dlo dhi) (take m ys)
             \<and> ((\<forall>k. running_read env k) \<and> (\<forall>k. reachable env k \<or> reachable env (Suc k))
                  \<longrightarrow> m = length ys)))
   \<and> (range_min wk = Some lo \<and> range_max wk = Some hi
        \<and> device_min wk = Some dlo \<and> device_max wk = Some dhi
      \<longrightarrow> (\<exists>wls data w1 es m. power_curve_wls lo hi = Inr wls
             \<and> power_curve_loop env wk wls [] w = Inr (data, w1)
             \<and> measure_power_curve_phase env wk w =
                 Inr (wk\<lparr>power_curve_data := data\<rparr>, emit (PowerCurveFinished data) w1)
             \<and> events (emit (PowerCurveFinished data) w1)
                 = events w @ es @ [PowerCurveFinished data]
             \<and> m \<le> length wls
             \<and> commanded_wavelengths es
                  = map (\<lambda>x. clamp_to_device (of_int x) dlo dhi) (take m wls)
             \<and> subseq (map ps_wavelength data)
                  (map (\<lambda>x. clamp_to_device (of_int x) dlo dhi) (take m wls))
             \<and> ((\<forall>k. running_read env k) \<and> (\<forall>k. reachable env k \<or> reachable env (Suc k))
                  \<longrightarrow> m = length wls)))
   \<and> (range_min wk = Some lo \<and> range_max wk = Some hi
        \<and> running_read env (n_run w) \<and> \<not> reachable env (n_conn w)
        \<and> \<not> reachable env (Suc (n_conn w))
      \<longrightarrow> measure_power_curve_phase env wk w =
            Inr (wk\<lparr>power_curve_data := []\<rparr>,
                 w\<lparr>n_run := Suc (n_run w), n_conn := Suc (Suc (n_conn w)),
                   events := events w @ [ConnectionLost, Sleep 2, PowerCurveFinished []]\<rparr>))"
proof (intro conjI impI)
  assume "running_read env (n_run w) \<and> \<not> reachable env (n_conn w) \<and> \<not> reachable env (Suc (n_conn w))"
  then show "power_curve_loop env wk (x # xs) data w =
            Inr (data, w\<lparr>n_run := Suc (n_run w), n_conn := Suc (Suc (n_conn w)),
                         events := events w @ [ConnectionLost, Sleep 2]\<rparr>)"
    by (intro power_curve_loop_unreachable) simp_all
next
  assume h: "running_read env (n_run w) \<and> \<not> reachable env (n_conn w) \<and> reachable env (Suc (n_conn w))
        \<and> device_min wk = Some dlo \<and> device_max wk = Some dhi"
  then have "running_read env (n_run w)" "reachable env (n_conn w) \<or> reachable env (Suc (n_conn w))"
    "device_min wk = Some dlo" "device_max wk = Some dhi"
    by simp_all
  from power_curve_loop_step[OF this, of x xs data] obtain data1 w1 es where
    "power_curve_loop env wk (x # xs) data w = power_curve_loop env wk xs data1 w1"
    "events w1 = events w @ (if reachable env (n_conn w) then [] else [ConnectionLost, Sleep 2])
          @ CommandSent (PutWavelength (channel wk) (clamp_to_device (of_int x) dlo dhi)) # es"
    "commanded_wavelengths es = []"
    by blast
  with h have "power_curve_loop env wk (x # xs) data w = power_curve_loop env wk xs data1 w1
             \<and> events w1 = events w @ [ConnectionLost, Sleep 2,
                   CommandSent (PutWavelength (channel wk) (clamp_to_device (of_int x) dlo dhi))] @ es
             \<and> commanded_wavelengths es = []"
    by simp
  then show "\<exists>data1 w1 es.
             power_curve_loop env wk (x # xs) data w = power_curve_loop env wk xs data1 w1
             \<and> events w1 = events w @ [ConnectionLost, Sleep 2,
                   CommandSent (PutWavelength (channel wk) (clamp_to_device (of_int x) dlo dhi))] @ es
             \<and> commanded_wavelengths es = []"
    by blast
next
  assume "device_min wk = Some dlo \<and> device_max wk = Some dhi"
  then have "device_min wk = Some dlo" "device_max wk = Some dhi"
    by simp_all
  from power_curve_loop_prefix[OF this, of env ys data w]
  show "\<exists>data' w' es m. power_curve_loop env wk ys data w = Inr (data', w')
             \<and> events w' = events w @ es \<and> m \<le> length ys
             \<and> commanded_wavelengths es
                  = map (\<lambda>x. clamp_to_device (of_int x) dlo dhi) (take m ys)
             \<and> ((\<forall>k. running_read env k) \<and> (\<forall>k. reachable env k \<or> reachable env (Suc k))
                  \<longrightarrow> m = length ys)"
    by blast
next
  assume "range_min wk = Some lo \<and> range_max wk = Some hi
        \<and> device_min wk = Some dlo \<and> device_max wk = Some dhi"
  then have h: "range_min wk = Some lo" "range_max wk = Some hi"
    "device_min wk = Some dlo" "device_max wk = Some dhi"
    by simp_all
  from measure_power_curve_phase_prefix[OF h, of env w] obtain data w1 es m where
    r: "power_curve_loop env wk (sample_grid lo hi) [] w = Inr (data, w1)"
       "measure_power_curve_phase env wk w =
         Inr (wk\<lparr>power_curve_data := data\<rparr>, emit (PowerCurveFinished data) w1)"
       "events w1 = events w @ es" "m \<le> length (sample_grid lo hi)"
       "commanded_wavelengths es
          = map (\<lambda>x. clamp_to_device (of_int x) dlo dhi) (take m (sample_grid lo hi))"
       "subseq (map ps_wavelength data)
          (map (\<lambda>x. clamp_to_device (of_int x) dlo dhi) (take m (sample_grid lo hi)))"
       "(\<forall>k. running_read env k) \<and> (\<forall>k. reachable env k \<or> reachable env (Suc k))
          \<longrightarrow> m = length (sample_grid lo hi)"
    by blast
  have "events (emit (PowerCurveFinished data) w1) = events w @ es @ [PowerCurveFinished data]"
    using r(3) by (simp add: emit_def)
  with r power_curve_wls_closed_form[of lo hi]
  show "\<exists>wls data w1 es m. power_curve_wls lo hi = Inr wls
             \<and> power_curve_loop env wk wls [] w = Inr (data, w1)
             \<and> measure_power_curve_phase env wk w =
                 Inr (wk\<lparr>power_curve_data := data\<rparr>, emit (PowerCurveFinished data) w1)
             \<and> events (emit (PowerCurveFinished data) w1)
                 = events w @ es @ [PowerCurveFinished data]
             \<and> m \<le> length wls
             \<and> commanded_wavelengths es
                  = map (\<lambda>x. clamp_to_device (of_int x) dlo dhi) (take m wls)
             \<and> subseq (map ps_wavelength data)
                  (map (\<lambda>x. clamp_to_device (of_int x) dlo dhi) (take m wls))
             \<and> ((\<forall>k. running_read env k) \<and> (\<forall>k. reachable env k \<or> reachable env (Suc k))
                  \<longrightarrow> m = length wls)"
    by blast
next
  assume "range_min wk = Some lo \<and> range_max wk = Some hi
        \<and> running_read env (n_run w) \<and> \<not> reachable env (n_conn w)
        \<and> \<not> reachable env (Suc (n_conn w))"
  then show "measure_power_curve_phase env wk w =
            Inr (wk\<lparr>power_curve_data := []\<rparr>,
                 w\<lparr>n_run := Suc (n_run w), n_conn := Suc (Suc (n_conn w)),
                   events := events w @ [ConnectionLost, Sleep 2, PowerCurveFinished []]\<rparr>)"
    by (intro measure_power_curve_phase_break[of wk lo hi]) simp_all
qed

theorem power_curve_retry_then_break_witness:
  "power_curve_loop flaky_env demo_worker [800, 810] [] world0 =
     Inr ([], world0\<lparr>n_run := 1, n_conn := 2, events := [ConnectionLost, Sleep 2]\<rparr>)
   \<and> (\<exists>data1 w1 es.
         power_curve_loop blip_env demo_worker [800, 810] [] world0
           = power_curve_loop blip_env demo_worker [810] data1 w1
         \<and> events w1 = [ConnectionLost, Sleep 2, CommandSent (PutWavelength 1 800)] @ es
         \<and> commanded_wavelengths es = [])
   \<and> (\<exists>data' w' es. power_curve_loop prompt_env demo_worker [800, 810] [] world0 = Inr (data', w')
         \<and> events w' = es \<and> commanded_wavelengths es = [800, 810])
   \<and> (\<exists>data w' es. measure_power_curve_phase prompt_env demo_worker world0 =
           Inr (demo_worker\<lparr>power_curve_data := data\<rparr>, w')
         \<and> events w' = es @ [PowerCurveFinished data]
         \<and> commanded_wavelengths es = [800, 810, 820, 830, 840, 850, 860, 870, 880, 890, 900])
   \<and> measure_power_curve_phase flaky_env demo_worker world0 =
       Inr (demo_worker\<lparr>power_curve_data := []\<rparr>,
            world0\<lparr>n_run := 1, n_conn := 2,
                   events := [ConnectionLost, Sleep 2, PowerCurveFinished []]\<rparr>)"
proof -
  have c: "running_read flaky_env (n_run world0) \<and> \<not> reachable flaky_env (n_conn world0)
      \<and> \<not> reachable flaky_env (Suc (n_conn world0))"
    by (simp add: flaky_env_def prompt_env_def reachable_def world0_def)
  have d: "device_min demo_worker = Some 700 \<and> device_max demo_worker = Some 1000"
    by (simp add: demo_worker_def TestWorker_init_def split: prod.splits)
  have r: "range_min demo_worker = Some 800 \<and> range_max demo_worker = Some 900"
    by (simp add: demo_worker_def demo_params_def TestWorker_init_def resolve_range_def)
  have ch: "channel demo_worker = 1"
    by (simp add: demo_worker_def TestWorker_init_def split: prod.splits)
  have b: "running_read blip_env (n_run world0) \<and> \<not> reachable blip_env (n_conn world0)
      \<and> reachable blip_env (Suc (n_conn world0))"
    by (simp add: blip_env_def prompt_env_def reachable_def world0_def reply_def)
  have ok: "(\<forall>k. running_read prompt_env k) \<and> (\<forall>k. reachable prompt_env k \<or> reachable prompt_env (Suc k))"
    by (simp add: prompt_env_def reachable_def reply_def)
  have "sample_grid (of_int 800) (of_int 900)
      = [800, 810, 820, 830, 840, 850, 860, 870, 880, 890, 900]"
    by (subst sample_grid_whole_bounds) (simp_all add: eval_nat_numeral)
  then have g: "power_curve_wls 800 900 = Inr [800, 810, 820, 830, 840, 850, 860, 870, 880, 890, 900]"
    by (simp add: power_curve_wls_closed_form)
  note t1 = power_curve_retry_then_break[where env=flaky_env and w=world0 and wk=demo_worker
      and dlo=700 and dhi=1000 and x=800 and xs="[810]" and data="[]" and ys="[]"
      and lo=800 and hi=900]
  from t1 c have first: "power_curve_loop flaky_env demo_worker [800, 810] [] world0 =
     Inr ([], world0\<lparr>n_run := 1, n_conn := 2, events := [ConnectionLost, Sleep 2]\<rparr>)"
    by (simp add: world0_def)
  from t1 c r have fifth: "measure_power_curve_phase flaky_env demo_worker world0 =
       Inr (demo_worker\<lparr>power_curve_data := []\<rparr>,
            world0\<lparr>n_run := 1, n_conn := 2,
                   events := [ConnectionLost, Sleep 2, PowerCurveFinished []]\<rparr>)"
    by (simp add: world0_def)
  note t2 = power_curve_retry_then_break[where env=blip_env and w=world0 and wk=demo_worker
      and dlo=700 and dhi=1000 and x=800 and xs="[810]" and data="[]" and ys="[]"
      and lo=800 and hi=900]
  from t2 b d
  have second: "\<exists>data1 w1 es.
         power_curve_loop blip_env demo_worker [800, 810] [] world0
           = power_curve_loop blip_env demo_worker [810] data1 w1
         \<and> events w1 = [ConnectionLost, Sleep 2, CommandSent (PutWavelength 1 800)] @ es
         \<and> commanded_wavelengths es = []"
    by (simp add: world0_def clamp_to_device_def ch)
  note t3 = power_curve_retry_then_break[where env=prompt_env and w=world0 and wk=demo_worker
      and dlo=700 and dhi=1000 and x=800 and xs="[810]" and data="[]" and ys="[800, 810]"
      and lo=800 and hi=900]
  from t3 d ok
  obtain data' w' es m where
    "power_curve_loop prompt_env demo_worker [800, 810] [] world0 = Inr (data', w')"
    "events w' = events world0 @ es"
    "commanded_wavelengths es = map (\<lambda>x. clamp_to_device (of_int x) 700 1000) (take m [800, 810])"
    "m = length [800 :: int, 810]"
    by blast
  then have third: "\<exists>data' w' es. power_curve_loop prompt_env demo_worker [800, 810] [] world0 = Inr (data', w')
         \<and> events w' = es \<and> commanded_wavelengths es = [800, 810]"
    by (simp add: world0_def clamp_to_device_def)
  from t3 r d ok
  obtain wls data w1 es m where p:
    "power_curve_wls 800 900 = Inr wls"
    "measure_power_curve_phase prompt_env demo_worker world0 =
       Inr (demo_worker\<lparr>power_curve_data := data\<rparr>, emit (PowerCurveFinished data) w1)"
    "events (emit (PowerCurveFinished data) w1) = events world0 @ es @ [PowerCurveFinished data]"
    "commanded_wavelengths es = map (\<lambda>x. clamp_to_device (of_int x) 700 1000) (take m wls)"
    "m = length wls"
    by blast
  from p(1) g have "wls = [800, 810, 820, 830, 840, 850, 860, 870, 880, 890, 900]"
    by simp
  with p(4,5) have "commanded_wavelengths es = [800, 810, 820, 830, 840, 850, 860, 870, 880, 890, 900]"
    by (simp add: clamp_to_device_def)
  moreover from p(3) have "events (emit (PowerCurveFinished data) w1) = es @ [PowerCurveFinished data]"
    by (simp add: world0_def)
  ultimately have fourth: "\<exists>data w' es. measure_power_curve_phase prompt_env demo_worker world0 =
           Inr (demo_worker\<lparr>power_curve_data := data\<rparr>, w')
         \<and> events w' = es @ [PowerCurveFinished data]
         \<and> commanded_wavelengths es = [800, 810, 820, 830, 840, 850, 860, 870, 880, 890, 900]"
    using p(2) by blast
  from first second third fourth fifth show ?thesis by blast
qed

section \<open>Claims about the remaining-time estimate\<close>

lemma update_eta_fields:
  "success_count (update_eta fsum p) = success_count p"
  "fail_count (update_eta fsum p) = fail_count p"
  "durations (update_eta fsum p) = durations p"
  "total_cycles (update_eta fsum p) = total_cycles p"
  "current_wait_time (update_eta fsum p) = current_wait_time p"
  "aborted (update_eta fsum p) = aborted p"
  "total_time (update_eta fsum p) = total_time p"
  by (simp_all add: update_eta_def split: option.splits)

lemma on_result_fields:
  assumes "\<not> aborted p"
  shows "success_count (on_result fsum p s d wl) + fail_count (on_result fsum p s d wl)
           = success_count p + fail_count p + 1"
    and "durations (on_result fsum p s d wl) = durations p @ [d]"
    and "total_cycles (on_result fsum p s d wl) = total_cycles p"
    and "current_wait_time (on_result fsum p s d wl) = current_wait_time p"
    and "\<not> aborted (on_result fsum p s d wl)"
    and "success_count (on_result fsum p s d wl) = success_count p + (if s then 1 else 0)"
  using assms by (simp_all add: on_result_def update_timer_def update_eta_fields)

lemma on_result_eta:
  assumes "\<not> aborted p"
  shows "latest_eta (on_result fsum p s d wl)
       = latest_eta (update_eta fsum (on_result fsum p s d wl))"
proof -
  define q where "q = (if s
          then p\<lparr>success_count := success_count p + 1,
                 total_time := fadd (total_time p) d,
                 success_wavelengths := success_wavelengths p @ [wl]\<rparr>
          else p\<lparr>fail_count := fail_count p + 1,
                 failed_wavelengths := failed_wavelengths p @ [wl]\<rparr>)
         \<lparr>durations := durations p @ [d], wavelengths := wavelengths p @ [wl]\<rparr>"
  have r: "on_result fsum p s d wl = update_timer (update_eta fsum q)"
    using assms by (simp add: on_result_def q_def)
  have "latest_eta (update_eta fsum (update_timer (update_eta fsum q)))
      = latest_eta (update_eta fsum q)"
    by (simp add: update_eta_def update_timer_def per_cycle_est_def split: option.splits)
  then show ?thesis
    by (simp add: r update_timer_def)
qed

lemma on_results_snoc:
  "on_results fsum p (rs @ [(s, d, wl)]) = on_result fsum (on_results fsum p rs) s d wl"
  by (induction rs arbitrary: p) auto

lemma on_results_fields:
  assumes "\<not> aborted p"
  shows "success_count (on_results fsum p rs) + fail_count (on_results fsum p rs)
           = success_count p + fail_count p + int (length rs)
     \<and> durations (on_results fsum p rs) = durations p @ map (\<lambda>r. fst (snd r)) rs
     \<and> total_cycles (on_results fsum p rs) = total_cycles p
     \<and> current_wait_time (on_results fsum p rs) = current_wait_time p
     \<and> \<not> aborted (on_results fsum p rs)
     \<and> success_count (on_results fsum p rs) = success_count p + int (length (filter fst rs))
     \<and> (rs \<noteq> [] \<longrightarrow> latest_eta (on_results fsum p rs)
                        = latest_eta (update_eta fsum (on_results fsum p rs)))"
  using assms
proof (induction rs arbitrary: p rule: rev_induct)
  case Nil
  then show ?case by simp
next
  case (snoc r rs)
  obtain s d wl where r: "r = (s, d, wl)" by (cases r) auto
  from snoc.IH[OF snoc.prems] have ih:
    "success_count (on_results fsum p rs) + fail_count (on_results fsum p rs)
           = success_count p + fail_count p + int (length rs)"
    "durations (on_results fsum p rs) = durations p @ map (\<lambda>r. fst (snd r)) rs"
    "total_cycles (on_results fsum p rs) = total_cycles p"
    "current_wait_time (on_results fsum p rs) = current_wait_time p"
    "\<not> aborted (on_results fsum p rs)"
    "success_count (on_results fsum p rs) = success_count p + int (length (filter fst rs))"
    by simp_all
  show ?case
    unfolding r on_results_snoc
    using on_result_fields[OF ih(5), of fsum s d wl] on_result_eta[OF ih(5), of fsum s d wl] ih
    by simp
qed

lemma eta_of_results:
  "latest_eta (on_results fsum (on_start prm) rs) =
     (case init_cycles (cycles prm) of
        None \<Rightarrow> EtaInfinite
      | Some c \<Rightarrow>
          if c - int (length rs) \<le> 0 then EtaZero
          else if rs = [] then EtaDash
          else format_eta
                 (fmul (py_float (c - int (length rs)))
                    (fadd (fadd (fdiv (fsum (map (\<lambda>r. fst (snd r)) rs))
                                      (py_float (int (length rs))))
                                (wait_time prm)) 3)))"
proof (cases "rs = []")
  case True
  then show ?thesis
    by (auto simp: on_start_def init_cycles_def split: option.splits)
next
  case False
  have na: "\<not> aborted (on_start prm)" by (simp add: on_start_def)
  from on_results_fields[OF na, of fsum rs] False have f:
    "success_count (on_results fsum (on_start prm) rs)
        + fail_count (on_results fsum (on_start prm) rs) = int (length rs)"
    "durations (on_results fsum (on_start prm) rs) = map (\<lambda>r. fst (snd r)) rs"
    "total_cycles (on_results fsum (on_start prm) rs) = init_cycles (cycles prm)"
    "current_wait_time (on_results fsum (on_start prm) rs) = wait_time prm"
    "latest_eta (on_results fsum (on_start prm) rs)
        = latest_eta (update_eta fsum (on_results fsum (on_start prm) rs))"
    by (simp_all add: on_start_def)
  have c0: "c \<noteq> 0" if "init_cycles (cycles prm) = Some c" for c
    using that by (auto simp: init_cycles_def split: option.splits if_splits)
  show ?thesis
    unfolding f(5)
    using False c0
    by (simp add: update_eta_def f(1-4) per_cycle_est_def split: option.splits)
qed

lemma format_eta_99: "format_eta 99 = EtaMS 1 39"
  by (simp add: format_eta_def py_floordiv_def py_fmod_def float_divmod_def c_fmod_def
      py_int_def fdiv_def fsub_def fadd_def)

lemma format_eta_96: "format_eta 96 = EtaMS 1 36"
  by (simp add: format_eta_def py_floordiv_def py_fmod_def float_divmod_def c_fmod_def
      py_int_def fdiv_def fsub_def fadd_def)

lemma format_eta_64: "format_eta 64 = EtaMS 1 4"
  by (simp add: format_eta_def py_floordiv_def py_fmod_def float_divmod_def c_fmod_def
      py_int_def fdiv_def fsub_def fadd_def)

text \<open>
  Claim C5, as stated, fails: \<open>on_result\<close> appends the duration of every attempt,
  failed or not, to \<open>durations\<close>, and \<open>_update_eta\<close> averages that list.  After a single
  failed attempt of 5 s in a run of 10 cycles with a wait of 3 s no successful attempt has
  been recorded, yet the estimate is \<open>9 * (5 + 3 + 3) = 99\<close> seconds, shown as
  \<open>01:39\<close>, not unknown.  After a success of 2 s and a failure of 10 s the estimate is
  \<open>8 * (6 + 3 + 3) = 96\<close> seconds (\<open>01:36\<close>); the successful attempts alone would
  give \<open>8 * (2 + 3 + 3) = 64\<close> seconds (\<open>01:04\<close>).  All these float operations are exact,
  so that the way \<open>sum\<close> adds is immaterial.
\<close>

theorem eta_counts_failed_attempts_counterexample:
  "success_count (on_results sum_left (on_start (demo_params\<lparr>cycles := Some 10\<rparr>))
                   [(False, 5, 800)]) = 0
   \<and> latest_eta (on_results sum_left (on_start (demo_params\<lparr>cycles := Some 10\<rparr>))
                   [(False, 5, 800)]) = EtaMS 1 39
   \<and> latest_eta (on_results sum_left (on_start (demo_params\<lparr>cycles := Some 10\<rparr>))
                   [(True, 2, 800), (False, 10, 900)]) = EtaMS 1 36
   \<and> format_eta (fmul 8 (fadd (fadd (fdiv (sum_left [2]) 1) 3) 3)) = EtaMS 1 4"
proof -
  have na: "\<not> aborted (on_start (demo_params\<lparr>cycles := Some 10\<rparr>))"
    by (simp add: on_start_def)
  have "success_count (on_results sum_left (on_start (demo_params\<lparr>cycles := Some 10\<rparr>))
                   [(False, 5, 800)]) = 0"
    using on_results_fields[OF na, of sum_left "[(False, 5, 800)]"]
    by (simp add: on_start_def)
  moreover have "latest_eta (on_results sum_left (on_start (demo_params\<lparr>cycles := Some 10\<rparr>))
                   [(False, 5, 800)]) = EtaMS 1 39"
    by (subst eta_of_results)
      (simp add: demo_params_def init_cycles_def sum_left_def
        fadd_def fdiv_def fmul_def py_float_def format_eta_99)
  moreover have "latest_eta (on_results sum_left (on_start (demo_params\<lparr>cycles := Some 10\<rparr>))
                   [(True, 2, 800), (False, 10, 900)]) = EtaMS 1 36"
    by (subst eta_of_results)
      (simp add: demo_params_def init_cycles_def sum_left_def
        fadd_def fdiv_def fmul_def py_float_def format_eta_96)
  moreover have "format_eta (fmul 8 (fadd (fadd (fdiv (sum_left [2]) 1) 3) 3)) = EtaMS 1 4"
    by (simp add: sum_left_def fadd_def fdiv_def fmul_def format_eta_64)
  ultimately show ?thesis by blast
qed

text \<open>
  Claim C5, amended.  After the outcomes \<open>rs\<close> of a started run, the remaining-time
  estimate is: infinite if the cycle count is unbounded (\<open>None\<close> or \<open>\<le> 0\<close>); \<open>"0s"\<close> if
  no cycle remains; unknown (\<open>"-"\<close>) if no attempt at all has been recorded; otherwise
  \<open>(cycles - attemptsDone) * (average duration of all attempts so far, successful or
  failed, + wait_time + 3)\<close> seconds, computed in float arithmetic in this order
  (the sum of the durations divided by their number, plus the wait, plus 3, times the
  cycles left) and shown as minutes and seconds cut to whole numbers (with hours from
  3600 s on).  This holds however \<open>sum\<close> adds the durations.
\<close>

theorem eta_after_results:
  "latest_eta (on_results fsum (on_start prm) rs) =
     (case init_cycles (cycles prm) of
        None \<Rightarrow> EtaInfinite
      | Some c \<Rightarrow>
          if c - int (length rs) \<le> 0 then EtaZero
          else if rs = [] then EtaDash
          else format_eta
                 (fmul (py_float (c - int (length rs)))
                    (fadd (fadd (fdiv (fsum (map (\<lambda>r. fst (snd r)) rs))
                                      (py_float (int (length rs))))
                                (wait_time prm)) 3)))"
  by (rule eta_of_results)

theorem eta_after_results_witness:
  "latest_eta (on_results sum_left (on_start (demo_params\<lparr>cycles := Some 10\<rparr>))
                 [(True, 2, 800), (False, 10, 900)])
     = format_eta (fmul 8 (fadd (fadd (fdiv 12 2) 3) 3))
   \<and> latest_eta (on_results sum_left (on_start (demo_params\<lparr>cycles := None\<rparr>))
                 [(True, 2, 800)]) = EtaInfinite
   \<and> latest_eta (on_results sum_left (on_start demo_params)
                 [(True, 2, 800), (False, 10, 900)]) = EtaZero
   \<and> latest_eta (on_results sum_left (on_start demo_params) []) = EtaDash"
proof -
  have "latest_eta (on_results sum_left (on_start (demo_params\<lparr>cycles := Some 10\<rparr>))
                 [(True, 2, 800), (False, 10, 900)])
     = format_eta (fmul 8 (fadd (fadd (fdiv 12 2) 3) 3))"
    using eta_after_results[of sum_left "demo_params\<lparr>cycles := Some 10\<rparr>"
        "[(True, 2, 800), (False, 10, 900)]"]
    by (simp add: demo_params_def init_cycles_def sum_left_def fadd_def py_float_def)
  moreover have "latest_eta (on_results sum_left (on_start (demo_params\<lparr>cycles := None\<rparr>))
                 [(True, 2, 800)]) = EtaInfinite"
    using eta_after_results[of sum_left "demo_params\<lparr>cycles := None\<rparr>" "[(True, 2, 800)]"]
    by (simp add: demo_params_def init_cycles_def)
  moreover have "latest_eta (on_results sum_left (on_start demo_params)
                 [(True, 2, 800), (False, 10, 900)]) = EtaZero"
    using eta_after_results[of sum_left demo_params "[(True, 2, 800), (False, 10, 900)]"]
    by (simp add: demo_params_def init_cycles_def)
  moreover have "latest_eta (on_results sum_left (on_start demo_params) []) = EtaDash"
    using eta_after_results[of sum_left demo_params "[]"]
    by (simp add: demo_params_def init_cycles_def)
  ultimately show ?thesis by blast
qed

end
